theory Spec2Isabelle
  imports Main "HOL-Library.Word"
begin

unbundle bit_operations_syntax

section \<open>The ECC508 driver (src/src/utility/ECC508.cpp)\<close>

text \<open>
  The driver talks to a crypto coprocessor over a two-wire bus. The embedding below follows
  the C++ source function by function. Platform conventions taken from the boards the
  library targets (32-bit little-endian ARM): \<open>int\<close> has 32 bits, \<open>memcpy\<close> of a
  \<open>uint16_t\<close> or \<open>uint32_t\<close> stores the least significant byte first.

  A pointer together with its length argument is modelled as the list of the bytes it
  designates; a null pointer is \<open>None\<close> where the source tests for it.
\<close>

type_synonym byte = "8 word"
type_synonym uint16_t = "16 word"

subsection \<open>Checksum: \<open>ECC508Class::crc16\<close>\<close>

text \<open>
  The inner loop \<open>for (uint8_t shift = 0x01; shift > 0x00; shift <<= 1)\<close> ends when the
  8-bit \<open>shift\<close> wraps to zero. \<open>low_rank\<close> is the termination measure of that loop:
  eight minus the position of the lowest set bit (zero for \<open>shift = 0\<close>).
\<close>

definition low_rank :: "byte \<Rightarrow> nat" where
  "low_rank s =
     (if bit s 0 then 8 else if bit s 1 then 7 else if bit s 2 then 6 else if bit s 3 then 5
      else if bit s 4 then 4 else if bit s 5 then 3 else if bit s 6 then 2
      else if bit s 7 then 1 else 0)"

lemma byte_nonzero_bit:
  "(s::byte) \<noteq> 0 \<Longrightarrow>
     bit s 0 \<or> bit s 1 \<or> bit s 2 \<or> bit s 3 \<or> bit s 4 \<or> bit s 5 \<or> bit s 6 \<or> bit s 7"
proof (rule ccontr)
  assume nz: "s \<noteq> 0"
    and no: "\<not> (bit s 0 \<or> bit s 1 \<or> bit s 2 \<or> bit s 3 \<or> bit s 4 \<or> bit s 5 \<or> bit s 6 \<or> bit s 7)"
  have "\<not> bit s n" if "n < 8" for n
  proof -
    from that have "n \<in> {0, 1, 2, 3, 4, 5, 6, 7}"
      by auto
    with no show ?thesis by auto
  qed
  then have "s = 0" by (intro bit_word_eqI) simp
  with nz show False by simp
qed

lemma low_rank_shift:
  "(s::byte) \<noteq> 0 \<Longrightarrow> low_rank (push_bit (Suc 0) s) < low_rank s"
proof -
  assume nz: "s \<noteq> 0"
  define t where "t = push_bit (Suc 0) s"
  have b: "\<not> bit t 0" "bit t (Suc 0) = bit s 0" "bit t 2 = bit s (Suc 0)" "bit t 3 = bit s 2"
    "bit t 4 = bit s 3" "bit t 5 = bit s 4" "bit t 6 = bit s 5" "bit t 7 = bit s 6"
    by (simp_all add: t_def bit_push_bit_iff del: push_bit_Suc push_bit_of_Suc_0)
  have "low_rank t < low_rank s"
    using byte_nonzero_bit [OF nz] by (auto simp add: low_rank_def b)
  then show ?thesis by (simp only: t_def)
qed

text \<open>
  One byte of input: the body of the \<open>for\<close> loop, with \<open>dataBit\<close> and \<open>crcBit\<close> as in
  the source (\<open>crc >> 15\<close> of a 16-bit value is 0 or 1).
\<close>

function crc16_bits :: "byte \<Rightarrow> byte \<Rightarrow> uint16_t \<Rightarrow> uint16_t" where
  "crc16_bits b shift crc =
     (if shift > 0x00 then
        (let dataBit = (if b AND shift \<noteq> 0 then 1 else 0 :: byte);
             crcBit = (ucast (drop_bit 15 crc) :: byte);
             crc1 = push_bit 1 crc;
             crc2 = (if dataBit \<noteq> crcBit then crc1 XOR 0x8005 else crc1)
         in crc16_bits b (push_bit 1 shift) crc2)
      else crc)"
  by pat_completeness auto
termination
  by (relation "measure (\<lambda>(b, shift, crc). low_rank shift)")
     (auto simp del: push_bit_Suc push_bit_of_Suc_0
           simp add: low_rank_shift word_greater_zero_iff)

declare crc16_bits.simps [simp del]

text \<open>The outer loop \<open>while (length) { ...; length--; data++; }\<close> over the input bytes.\<close>

fun crc16_loop :: "byte list \<Rightarrow> uint16_t \<Rightarrow> uint16_t" where
  "crc16_loop [] crc = crc"
| "crc16_loop (b # data) crc = crc16_loop data (crc16_bits b 0x01 crc)"

definition crc16 :: "byte list option \<Rightarrow> uint16_t" where
  "crc16 data =
     (case data of
        None \<Rightarrow> 0
      | Some bs \<Rightarrow> if length bs = 0 then 0 else crc16_loop bs 0)"

subsection \<open>The checksum as the specification words it\<close>

text \<open>
  Written from the specification's sentence, for comparison with \<open>crc16\<close>: the
  accumulator starts at 0; for each input byte, for each of its 8 bits from least to most
  significant, the data bit is compared to the accumulator's top bit, the accumulator is
  shifted left by one, and if the two bits differ it is XORed with \<open>0x8005\<close>.
\<close>

definition spec_checksum_bit :: "uint16_t \<Rightarrow> bool \<Rightarrow> uint16_t" where
  "spec_checksum_bit acc dataBit =
     (let topBit = bit acc 15;
          shifted = push_bit 1 acc
      in if dataBit \<noteq> topBit then shifted XOR 0x8005 else shifted)"

definition spec_checksum_byte :: "byte \<Rightarrow> uint16_t \<Rightarrow> uint16_t" where
  "spec_checksum_byte b acc = fold (\<lambda>k a. spec_checksum_bit a (bit b k)) [0, 1, 2, 3, 4, 5, 6, 7] acc"

definition spec_checksum :: "byte list \<Rightarrow> uint16_t" where
  "spec_checksum bytes = fold spec_checksum_byte bytes 0"

subsection \<open>The bus, the clock and the driver object\<close>

text \<open>
  The two-wire bus and the delay primitives are external collaborators. Every call the
  driver makes on them is recorded, in order, as an \<open>event\<close> of the \<open>trace\<close>.
\<close>

datatype event =
    WireBegin
  | WireSetClock nat
  | BeginTransmission byte
  | WireWrite byte
  | EndTransmission
  | SendTo byte "byte list"
  | RequestFrom byte nat
  | Delay nat
  | DelayMicroseconds nat

text \<open>
  What the bus answers is a parameter of the model, given as scripts that the calls
  consume in order:
  \<^item> \<open>acks\<close>: the status returned by each \<open>endTransmission\<close> and \<open>sendTo\<close>
    (0 is success);
  \<^item> \<open>reads\<close>: the bytes delivered by each \<open>requestFrom\<close>; the call stores them at
    the start of the buffer (at most the number requested) and returns how many it stored;
  \<^item> \<open>junk\<close>: the indeterminate initial contents of each uninitialised response buffer
    that \<open>receiveResponse\<close> allocates.
  An exhausted script behaves like an absent device: status 2 (address not acknowledged),
  no byte read, a zero-filled buffer.
  \<open>device_address\<close> is the \<open>_address\<close> member of the driver object.
\<close>

record world =
  device_address :: byte
  trace :: "event list"
  acks :: "nat list"
  reads :: "byte list list"
  junk :: "byte list list"

definition emit :: "event \<Rightarrow> world \<Rightarrow> world" where
  "emit e w = w\<lparr>trace := trace w @ [e]\<rparr>"

definition next_ack :: "world \<Rightarrow> nat \<times> world" where
  "next_ack w = (case acks w of [] \<Rightarrow> (2, w) | a # as \<Rightarrow> (a, w\<lparr>acks := as\<rparr>))"

definition wire_endTransmission :: "world \<Rightarrow> nat \<times> world" where
  "wire_endTransmission w = next_ack (emit EndTransmission w)"

definition wire_sendTo :: "byte \<Rightarrow> byte list \<Rightarrow> world \<Rightarrow> nat \<times> world" where
  "wire_sendTo addr bytes w = next_ack (emit (SendTo addr bytes) w)"

definition wire_requestFrom :: "byte \<Rightarrow> byte list \<Rightarrow> nat \<Rightarrow> world \<Rightarrow> nat \<times> byte list \<times> world" where
  "wire_requestFrom addr buffer quantity w =
     (let w1 = emit (RequestFrom addr quantity) w
      in case reads w1 of
           [] \<Rightarrow> (0, buffer, w1)
         | r # rs \<Rightarrow>
             (let d = take quantity r
              in (length d, d @ drop (length d) buffer, w1\<lparr>reads := rs\<rparr>)))"

definition delay :: "nat \<Rightarrow> world \<Rightarrow> world" where
  "delay ms w = emit (Delay ms) w"

definition delayMicroseconds :: "nat \<Rightarrow> world \<Rightarrow> world" where
  "delayMicroseconds us w = emit (DelayMicroseconds us) w"

definition uninitialised :: "nat \<Rightarrow> world \<Rightarrow> byte list \<times> world" where
  "uninitialised n w =
     (case junk w of
        [] \<Rightarrow> (replicate n 0, w)
      | j # js \<Rightarrow> (take n (j @ replicate n 0), w\<lparr>junk := js\<rparr>))"

text \<open>
  \<open>memcpy dst src n\<close> is the destination after \<open>memcpy(dst, src, n)\<close>, and
  \<open>memcpy_at dst off src n\<close> after \<open>memcpy(dst + off, src, n)\<close>. The callers below always
  supply \<open>n\<close> source bytes; a destination shorter than the copy is a buffer overflow in
  C, and the model then returns the bytes written followed by nothing.
\<close>

definition memcpy :: "byte list \<Rightarrow> byte list \<Rightarrow> nat \<Rightarrow> byte list" where
  "memcpy dst src n = take n src @ drop n dst"

definition memcpy_at :: "byte list \<Rightarrow> nat \<Rightarrow> byte list \<Rightarrow> nat \<Rightarrow> byte list" where
  "memcpy_at dst off src n = take off dst @ take n src @ drop (off + n) dst"

definition bytes_of_uint16 :: "uint16_t \<Rightarrow> byte list" where
  "bytes_of_uint16 v = [ucast v, ucast (drop_bit 8 v)]"


subsection \<open>Frame transport: \<open>sendCommand\<close>, \<open>receiveResponse\<close>, \<open>wakeup\<close>, \<open>idle\<close>\<close>

text \<open>
  \<open>command_frame\<close> is the array \<open>command\<close> that \<open>sendCommand\<close> assembles; \<open>data\<close> is
  the payload of \<open>dataLength\<close> bytes (empty for the default arguments). The length byte is
  \<open>sizeof(command) - 1\<close> stored into a \<open>byte\<close>.
\<close>

definition command_frame :: "byte \<Rightarrow> byte \<Rightarrow> uint16_t \<Rightarrow> byte list \<Rightarrow> byte list" where
  "command_frame opcode param1 param2 data =
     (let dataLength = length data;
          command = [0x03, of_nat (8 + dataLength - 1), opcode, param1]
                      @ bytes_of_uint16 param2 @ data;
          crc = crc16 (Some (take (8 - 3 + dataLength) (drop 1 command)))
      in command @ bytes_of_uint16 crc)"

definition sendCommand :: "byte \<Rightarrow> byte \<Rightarrow> uint16_t \<Rightarrow> byte list \<Rightarrow> world \<Rightarrow> int \<times> world" where
  "sendCommand opcode param1 param2 data w =
     (case wire_sendTo (device_address w) (command_frame opcode param1 param2 data) w of
        (rc, w1) \<Rightarrow> if rc \<noteq> 0 then (0, w1) else (1, w1))"

text \<open>
  \<open>while (requestFrom(...) != responseSize && retries--);\<close> The first argument is the
  value of \<open>retries\<close> before the call.
\<close>

fun requestLoop :: "nat \<Rightarrow> nat \<Rightarrow> byte list \<Rightarrow> world \<Rightarrow> byte list \<times> world" where
  "requestLoop 0 responseSize responseBuffer w =
     (case wire_requestFrom (device_address w) responseBuffer responseSize w of
        (n, buf, w1) \<Rightarrow> (buf, w1))"
| "requestLoop (Suc retries) responseSize responseBuffer w =
     (case wire_requestFrom (device_address w) responseBuffer responseSize w of
        (n, buf, w1) \<Rightarrow>
          if n \<noteq> responseSize then requestLoop retries responseSize buf w1 else (buf, w1))"

text \<open>
  \<open>response\<close> is the caller's destination buffer; the result carries its contents after
  the call. \<open>len\<close> is the source's parameter \<open>length\<close>.
\<close>

definition receiveResponse :: "byte list \<Rightarrow> nat \<Rightarrow> world \<Rightarrow> int \<times> byte list \<times> world" where
  "receiveResponse response len w =
     (let responseSize = len + 3
      in case uninitialised responseSize w of
        (responseBuffer0, w0) \<Rightarrow>
          (case requestLoop 20 responseSize responseBuffer0 w0 of
             (responseBuffer, w1) \<Rightarrow>
               if unat (responseBuffer ! 0) \<noteq> responseSize then (0, response, w1)
               else
                 (let responseCrc = (ucast (responseBuffer ! (len + 1))
                        OR push_bit 8 (ucast (responseBuffer ! (len + 2))) :: uint16_t)
                  in if responseCrc \<noteq> crc16 (Some (take (responseSize - 2) responseBuffer))
                     then (0, response, w1)
                     else (1, memcpy response (drop 1 responseBuffer) len, w1))))"

text \<open>
  Uninitialised locals that receive a response (\<open>byte response\<close>, \<open>uint8_t status\<close>,
  \<open>byte response[32]\<close>, \<open>byte rand[32]\<close>, \<open>byte config[4]\<close>) are read by the source
  only after \<open>receiveResponse\<close> has overwritten them completely; they start as zeros here.
\<close>

definition wakeup :: "world \<Rightarrow> int \<times> world" where
  "wakeup w =
     (let w1 = emit (BeginTransmission 0x00) w;
          w2 = snd (wire_endTransmission w1);
          w3 = delayMicroseconds 800 w2
      in case receiveResponse [0] 1 w3 of
           (r, response, w4) \<Rightarrow>
             if r = 0 \<or> response ! 0 \<noteq> 0x11 then (0, w4) else (1, w4))"

definition idle :: "world \<Rightarrow> int \<times> world" where
  "idle w =
     (let w1 = emit (BeginTransmission (device_address w)) w;
          w2 = emit (WireWrite 0x02) w1
      in case wire_endTransmission w2 of
           (rc, w3) \<Rightarrow> if rc \<noteq> 0 then (0, w3) else (1, w3))"

subsection \<open>Command executor\<close>

text \<open>
  \<open>random_loop data off len\<close> is the \<open>while (length)\<close> loop of \<open>random\<close>: \<open>off\<close> is
  how far the pointer \<open>data\<close> has advanced, \<open>len\<close> the remaining \<open>length\<close>. Its first
  component is 0 when the loop left the function through a \<open>return 0\<close>.
\<close>

function random_loop :: "byte list \<Rightarrow> nat \<Rightarrow> nat \<Rightarrow> world \<Rightarrow> int \<times> byte list \<times> world" where
  "random_loop data off len w =
     (if len \<noteq> 0 then
        (case sendCommand 0x1b 0x00 0x0000 [] w of
           (r1, w1) \<Rightarrow>
             if r1 = 0 then (0, data, w1)
             else
               (let w2 = delay 23 w1
                in case receiveResponse (replicate 32 0) 32 w2 of
                     (r2, response, w3) \<Rightarrow>
                       if r2 = 0 then (0, data, w3)
                       else
                         (let copyLength = min 32 len
                          in random_loop (memcpy_at data off response copyLength)
                               (off + copyLength) (len - copyLength) w3)))
      else (1, data, w))"
  by pat_completeness auto
termination
  by (relation "measure (\<lambda>(data, off, len, w). len)") auto

declare random_loop.simps [simp del]

definition random :: "byte list \<Rightarrow> nat \<Rightarrow> world \<Rightarrow> int \<times> byte list \<times> world" where
  "random data len w =
     (case wakeup w of
        (r, w1) \<Rightarrow>
          if r = 0 then (0, data, w1)
          else
            (case random_loop data 0 len w1 of
               (r2, data2, w2) \<Rightarrow>
                 if r2 = 0 then (0, data2, w2)
                 else
                   (let w3 = delay 1 w2;
                        w4 = snd (idle w3)
                    in (1, data2, w4))))"



definition challenge :: "byte list \<Rightarrow> world \<Rightarrow> int \<times> world" where
  "challenge message w =
     (case wakeup w of
        (r, w1) \<Rightarrow>
          if r = 0 then (0, w1)
          else
            (case sendCommand 0x16 0x03 0x0000 (take 32 message) w1 of
               (r2, w2) \<Rightarrow>
                 if r2 = 0 then (0, w2)
                 else
                   (let w3 = delay 7 w2
                    in case receiveResponse [0] 1 w3 of
                         (r3, status, w4) \<Rightarrow>
                           if r3 = 0 then (0, w4)
                           else
                             (let w5 = delay 1 w4;
                                  w6 = snd (idle w5)
                              in if status ! 0 \<noteq> 0 then (0, w6) else (1, w6)))))"

definition sign :: "int \<Rightarrow> byte list \<Rightarrow> world \<Rightarrow> int \<times> byte list \<times> world" where
  "sign slot signature w =
     (case wakeup w of
        (r, w1) \<Rightarrow>
          if r = 0 then (0, signature, w1)
          else
            (case sendCommand 0x41 0x80 (word_of_int slot) [] w1 of
               (r2, w2) \<Rightarrow>
                 if r2 = 0 then (0, signature, w2)
                 else
                   (let w3 = delay 50 w2
                    in case receiveResponse signature 64 w3 of
                         (r3, signature1, w4) \<Rightarrow>
                           if r3 = 0 then (0, signature1, w4)
                           else
                             (let w5 = delay 1 w4;
                                  w6 = snd (idle w5)
                              in (1, signature1, w6)))))"

text \<open>
  \<open>read\<close> and \<open>write\<close> (\<open>write_zone\<close> here: \<open>write\<close> is a keyword of the theory
  language): \<open>zone\<close>, \<open>address\<close> and \<open>len\<close> (the source's \<open>length\<close>) are C
  \<open>int\<close>s; passing them to \<open>sendCommand\<close> truncates them to 8 and 16 bits.
\<close>

definition read :: "int \<Rightarrow> int \<Rightarrow> byte list \<Rightarrow> int \<Rightarrow> world \<Rightarrow> int \<times> byte list \<times> world" where
  "read zone address buffer len w =
     (case wakeup w of
        (r, w1) \<Rightarrow>
          if r = 0 then (0, buffer, w1)
          else if len \<noteq> 4 \<and> len \<noteq> 32 then (0, buffer, w1)
          else
            (let zone1 = (if len = 32 then zone OR 0x80 else zone)
             in case sendCommand 0x02 (word_of_int zone1) (word_of_int address) [] w1 of
                  (r2, w2) \<Rightarrow>
                    if r2 = 0 then (0, buffer, w2)
                    else
                      (let w3 = delay 1 w2
                       in case receiveResponse buffer (nat len) w3 of
                            (r3, buffer1, w4) \<Rightarrow>
                              if r3 = 0 then (0, buffer1, w4)
                              else
                                (let w5 = delay 1 w4;
                                     w6 = snd (idle w5)
                                 in (len, buffer1, w6)))))"

definition write_zone :: "int \<Rightarrow> int \<Rightarrow> byte list \<Rightarrow> int \<Rightarrow> world \<Rightarrow> int \<times> world" where
  "write_zone zone address buffer len w =
     (case wakeup w of
        (r, w1) \<Rightarrow>
          if r = 0 then (0, w1)
          else if len \<noteq> 4 \<and> len \<noteq> 32 then (0, w1)
          else
            (let zone1 = (if len = 32 then zone OR 0x80 else zone)
             in case sendCommand 0x12 (word_of_int zone1) (word_of_int address)
                       (take (nat len) buffer) w1 of
                  (r2, w2) \<Rightarrow>
                    if r2 = 0 then (0, w2)
                    else
                      (let w3 = delay 26 w2
                       in case receiveResponse [0] 1 w3 of
                            (r3, status, w4) \<Rightarrow>
                              if r3 = 0 then (0, w4)
                              else
                                (let w5 = delay 1 w4;
                                     w6 = snd (idle w5)
                                 in if status ! 0 \<noteq> 0 then (0, w6) else (1, w6)))))"

text \<open>\<open>ECC508Class::lock(int zone)\<close>.\<close>

definition lock_zone :: "int \<Rightarrow> world \<Rightarrow> int \<times> world" where
  "lock_zone zone w =
     (case wakeup w of
        (r, w1) \<Rightarrow>
          if r = 0 then (0, w1)
          else
            (case sendCommand 0x17 (word_of_int (0x80 OR zone)) 0x0000 [] w1 of
               (r2, w2) \<Rightarrow>
                 if r2 = 0 then (0, w2)
                 else
                   (let w3 = delay 32 w2
                    in case receiveResponse [0] 1 w3 of
                         (r3, status, w4) \<Rightarrow>
                           if r3 = 0 then (0, w4)
                           else
                             (let w5 = delay 1 w4;
                                  w6 = snd (idle w5)
                              in if status ! 0 \<noteq> 0 then (0, w6) else (1, w6)))))"

subsection \<open>Cryptographic operation layer\<close>

definition ecSign :: "int \<Rightarrow> byte list \<Rightarrow> byte list \<Rightarrow> world \<Rightarrow> int \<times> byte list \<times> world" where
  "ecSign slot message signature w =
     (case random (replicate 32 0) 32 w of
        (r1, rand, w1) \<Rightarrow>
          if r1 = 0 then (0, signature, w1)
          else
            (case challenge message w1 of
               (r2, w2) \<Rightarrow>
                 if r2 = 0 then (0, signature, w2)
                 else
                   (case sign slot signature w2 of
                      (r3, signature1, w3) \<Rightarrow>
                        if r3 = 0 then (0, signature1, w3) else (1, signature1, w3))))"

definition locked :: "world \<Rightarrow> int \<times> world" where
  "locked w =
     (case read 0 0x15 (replicate 4 0) 4 w of
        (r, config, w1) \<Rightarrow>
          if r = 0 then (0, w1)
          else if config ! 2 = 0x00 \<and> config ! 3 = 0x00 then (1, w1)
          else (0, w1))"

text \<open>
  The loop \<open>for (int i = 16; i < 128; i += 4)\<close> of \<open>writeConfiguration\<close>, from the value
  \<open>i\<close> on; \<open>&data[i]\<close> is \<open>drop i data\<close>.
\<close>

function writeConfiguration_loop :: "byte list \<Rightarrow> nat \<Rightarrow> world \<Rightarrow> int \<times> world" where
  "writeConfiguration_loop data i w =
     (if i < 128 then
        (if i = 84 then writeConfiguration_loop data (i + 4) w
         else
           (case write_zone 0 (int (i div 4)) (drop i data) 4 w of
              (r, w1) \<Rightarrow>
                if r = 0 then (0, w1) else writeConfiguration_loop data (i + 4) w1))
      else (1, w))"
  by pat_completeness auto
termination
  by (relation "measure (\<lambda>(data, i, w). 128 - i)") auto

declare writeConfiguration_loop.simps [simp del]

definition writeConfiguration :: "byte list \<Rightarrow> world \<Rightarrow> int \<times> world" where
  "writeConfiguration data w = writeConfiguration_loop data 16 w"

text \<open>\<open>ECC508Class::lock()\<close>.\<close>

definition lock :: "world \<Rightarrow> int \<times> world" where
  "lock w =
     (case lock_zone 0 w of
        (r0, w1) \<Rightarrow>
          if r0 = 0 then (0, w1)
          else
            (case lock_zone 1 w1 of
               (r1, w2) \<Rightarrow> if r1 = 0 then (0, w2) else (1, w2)))"

subsection \<open>Observing the bus\<close>

text \<open>
  \<open>frames_sent w\<close> lists, in order, the byte sequences the driver has handed to
  \<open>sendTo\<close> so far: the command frames that went out on the bus.
\<close>

definition frame_of :: "event \<Rightarrow> byte list list" where
  "frame_of e = (case e of SendTo a bs \<Rightarrow> [bs] | _ \<Rightarrow> [])"

definition frames_sent :: "world \<Rightarrow> byte list list" where
  "frames_sent w = concat (map frame_of (trace w))"

subsection \<open>A well-formed response\<close>

text \<open>
  \<open>response_frame payload\<close> is the frame \<open>receiveResponse\<close> accepts for \<open>payload\<close>:
  the length byte (payload length plus 3), the payload, and the checksum of both, least
  significant byte first. It stands for what a device puts on the bus in the scenarios
  below; \<open>response_frame [0x11]\<close> is the answer to a wake-up.
\<close>

definition response_frame :: "byte list \<Rightarrow> byte list" where
  "response_frame payload =
     (let body = of_nat (length payload + 3) # payload
      in body @ bytes_of_uint16 (crc16 (Some body)))"

subsection \<open>The configuration write, word by word\<close>

text \<open>
  Written from the statement of C5 below, for comparison with \<open>writeConfiguration\<close>:
  the listed 4-byte words are written in order, word \<open>a\<close> from the bytes at offset
  \<open>4a\<close>; the first write that returns 0 ends the operation with 0, and the words after
  it are not written; after the last word the result is 1.
\<close>

fun write_words :: "byte list \<Rightarrow> nat list \<Rightarrow> world \<Rightarrow> int \<times> world" where
  "write_words data [] w = (1, w)"
| "write_words data (a # as) w =
     (case write_zone 0 (int a) (drop (4 * a) data) 4 w of
        (r, w1) \<Rightarrow> if r = 0 then (0, w1) else write_words data as w1)"

section \<open>Properties\<close>

subsection \<open>The checksum\<close>

lemma dataBit_iff: "k < 8 \<Longrightarrow> ((b::byte) AND push_bit k 1 \<noteq> 0) = bit b k"
  by (simp add: and_exp_eq_0_iff_not_bit push_bit_eq_mult)

lemma bit16_high: "n \<noteq> 0 \<Longrightarrow> \<not> bit (crc::uint16_t) (15 + n)"
  using bit_imp_le_length [of crc "15 + n"] by auto

lemma crcBit_val: "(ucast (drop_bit 15 (crc::uint16_t)) :: byte) = (if bit crc 15 then 1 else 0)"
proof (rule bit_word_eqI)
  fix n assume "n < LENGTH(8)"
  show "bit (ucast (drop_bit 15 crc) :: byte) n = bit (if bit crc 15 then 1 else 0 :: byte) n"
    using bit16_high [of n crc]
    by (cases "n = 0") (auto simp add: bit_ucast_iff bit_drop_bit_eq bit_1_iff)
qed

lemma crc16_bits_step:
  assumes "k < 8"
  shows "crc16_bits b (push_bit k 1) crc
       = crc16_bits b (push_bit (Suc k) 1) (spec_checksum_bit crc (bit b k))"
proof -
  have nz: "(push_bit k 1 :: byte) > 0"
    using assms by (simp add: word_greater_zero_iff push_bit_eq_mult)
  show ?thesis
    apply (subst crc16_bits.simps)
    apply (simp only: nz if_True Let_def dataBit_iff [OF assms] crcBit_val spec_checksum_bit_def)
    apply (auto simp add: push_bit_eq_mult mult.commute)
    done
qed

lemma crc16_bits_byte: "crc16_bits b 0x01 crc = spec_checksum_byte b crc"
proof -
  have e: "crc16_bits b 256 c = c" for c by (simp add: crc16_bits.simps)
  show ?thesis
    using crc16_bits_step [of 0 b] crc16_bits_step [of 1 b] crc16_bits_step [of 2 b]
      crc16_bits_step [of 3 b] crc16_bits_step [of 4 b] crc16_bits_step [of 5 b]
      crc16_bits_step [of 6 b] crc16_bits_step [of 7 b]
    by (simp add: spec_checksum_byte_def e)
qed

lemma crc16_loop_fold: "crc16_loop bs crc = fold spec_checksum_byte bs crc"
  by (induction bs arbitrary: crc) (simp_all add: crc16_bits_byte)

text \<open>
  C2. The checksum is a function of its input alone; it is 0 for a null pointer and for
  an empty input; and for every byte sequence it equals the bit-serial algorithm the
  specification states (accumulator 0; per byte, bits from least to most significant;
  compare the data bit with the accumulator's top bit, shift left by one, XOR with
  \<open>0x8005\<close> when the two differ).
\<close>

theorem crc16_refines_spec:
  "crc16 None = 0 \<and> crc16 (Some []) = 0 \<and> crc16 (Some bs) = spec_checksum bs"
  by (cases bs) (simp_all add: crc16_def spec_checksum_def crc16_loop_fold)

subsection \<open>What each primitive puts on the bus\<close>

lemma frames_emit: "frames_sent (emit e w) = frames_sent w @ frame_of e"
  by (simp add: frames_sent_def emit_def)

lemma frames_next_ack: "next_ack w = (rc, w1) \<Longrightarrow> frames_sent w1 = frames_sent w"
  by (auto simp add: next_ack_def frames_sent_def split: list.splits)

lemma frames_endTransmission: "wire_endTransmission w = (rc, w1) \<Longrightarrow> frames_sent w1 = frames_sent w"
  by (auto simp add: wire_endTransmission_def frames_emit frame_of_def dest!: frames_next_ack)

lemma frames_snd_endTransmission: "frames_sent (snd (wire_endTransmission w)) = frames_sent w"
  by (cases "wire_endTransmission w") (simp add: frames_endTransmission)

lemma frames_sendTo: "wire_sendTo a bs w = (rc, w1) \<Longrightarrow> frames_sent w1 = frames_sent w @ [bs]"
  by (auto simp add: wire_sendTo_def frames_emit frame_of_def dest!: frames_next_ack)

lemma frames_requestFrom:
  "wire_requestFrom a buf n w = (k, buf1, w1) \<Longrightarrow> frames_sent w1 = frames_sent w"
  by (auto simp add: wire_requestFrom_def Let_def frames_sent_def emit_def frame_of_def split: list.splits)

lemma frames_requestLoop:
  "requestLoop k n buf w = (buf1, w1) \<Longrightarrow> frames_sent w1 = frames_sent w"
proof (induction k arbitrary: buf w)
  case 0
  then show ?case by (auto split: prod.splits dest: frames_requestFrom)
next
  case (Suc k)
  then show ?case
    by (fastforce split: prod.splits if_splits dest: frames_requestFrom)
qed

lemma frames_uninitialised: "uninitialised n w = (buf, w1) \<Longrightarrow> frames_sent w1 = frames_sent w"
  by (auto simp add: uninitialised_def frames_sent_def split: list.splits)

lemma frames_receiveResponse:
  "receiveResponse response len w = (r, response1, w1) \<Longrightarrow> frames_sent w1 = frames_sent w"
  by (auto simp add: receiveResponse_def Let_def split: prod.splits if_splits
           dest!: frames_uninitialised frames_requestLoop)

lemma frames_delay: "frames_sent (delay n w) = frames_sent w"
  by (simp add: delay_def frames_emit frame_of_def)

lemma frames_delayMicroseconds: "frames_sent (delayMicroseconds n w) = frames_sent w"
  by (simp add: delayMicroseconds_def frames_emit frame_of_def)

lemma frames_wakeup: "wakeup w = (r, w1) \<Longrightarrow> frames_sent w1 = frames_sent w"
  by (auto simp add: wakeup_def Let_def frames_delayMicroseconds frames_emit frame_of_def
                     frames_snd_endTransmission
           split: prod.splits if_splits dest!: frames_receiveResponse)

lemma frames_idle: "idle w = (r, w1) \<Longrightarrow> frames_sent w1 = frames_sent w"
  by (auto simp add: idle_def Let_def frames_emit frame_of_def
           split: prod.splits if_splits dest!: frames_endTransmission)

lemma frames_snd_idle: "frames_sent (snd (idle w)) = frames_sent w"
  by (cases "idle w") (simp add: frames_idle)

lemma frames_sendCommand:
  "sendCommand opcode param1 param2 data w = (r, w1) \<Longrightarrow>
     frames_sent w1 = frames_sent w @ [command_frame opcode param1 param2 data]"
  by (auto simp add: sendCommand_def split: prod.splits if_splits dest!: frames_sendTo)

subsection \<open>Little-endian byte packing\<close>

lemma uint16_bytes_roundtrip:
  "(ucast (ucast c :: byte) OR push_bit 8 (ucast (ucast (drop_bit 8 c) :: byte))) = (c :: uint16_t)"
  apply (rule bit_word_eqI)
  apply (auto simp add: bit_or_iff bit_ucast_iff bit_push_bit_iff bit_drop_bit_eq)
  done



subsection \<open>Command frames\<close>

lemma command_frame_layout:
  "command_frame opcode param1 param2 data =
     0x03 # ([of_nat (length data + 7), opcode, param1, ucast param2, ucast (drop_bit 8 param2)]
       @ data)
       @ bytes_of_uint16 (crc16 (Some ([of_nat (length data + 7), opcode, param1, ucast param2,
                                         ucast (drop_bit 8 param2)] @ data)))"
  by (simp add: command_frame_def Let_def bytes_of_uint16_def add.commute)

lemma length_command_frame: "length (command_frame opcode param1 param2 data) = length data + 8"
  by (simp add: command_frame_layout bytes_of_uint16_def)

lemma command_frame_nth1:
  "unat (command_frame opcode param1 param2 data ! Suc 0) = (length data + 7) mod 256"
  by (simp only: command_frame_layout append_Cons nth_Cons_Suc nth_Cons_0 unat_of_nat) simp

lemma command_frame_covered:
  "take (length data + 5) (drop 1 (command_frame opcode param1 param2 data))
     = [of_nat (length data + 7), opcode, param1, ucast param2, ucast (drop_bit 8 param2)] @ data"
proof -
  define covered where
    "covered = [of_nat (length data + 7), opcode, param1, ucast param2, ucast (drop_bit 8 param2)] @ data"
  have l: "length covered = length data + 5" by (simp add: covered_def)
  have "drop 1 (command_frame opcode param1 param2 data)
          = covered @ bytes_of_uint16 (crc16 (Some covered))"
    by (simp only: command_frame_layout covered_def [symmetric]) simp
  then show ?thesis
    unfolding covered_def [symmetric] l [symmetric] by simp
qed

text \<open>
  C3. For every opcode, parameters and payload of at most 248 bytes (the driver's own
  payloads have 0, 4, 32 or 128 bytes) the frame is: the type byte \<open>0x03\<close>; a length
  byte equal to the frame size minus the type byte; the opcode; param1; param2, low byte
  first; the payload; and the two checksum bytes, low byte first. The checksum is
  computed over the bytes from the length byte through the end of the payload, the type
  byte excluded. \<open>sendCommand\<close> hands exactly this frame to the bus.
\<close>

theorem command_frame_format:
  assumes "length data \<le> 248"
  shows "command_frame opcode param1 param2 data =
     [0x03, of_nat (length (command_frame opcode param1 param2 data) - 1), opcode, param1,
      ucast param2, ucast (drop_bit 8 param2)]
       @ data
       @ bytes_of_uint16 (crc16 (Some (take (length data + 5)
                                          (drop 1 (command_frame opcode param1 param2 data)))))
   \<and> take (length data + 5) (drop 1 (command_frame opcode param1 param2 data))
       = [of_nat (length data + 7), opcode, param1, ucast param2, ucast (drop_bit 8 param2)] @ data
   \<and> bytes_of_uint16 c = [ucast c, ucast (drop_bit 8 c)]
   \<and> length (command_frame opcode param1 param2 data) = length data + 8
   \<and> unat (command_frame opcode param1 param2 data ! 1)
       = length (command_frame opcode param1 param2 data) - 1
   \<and> frames_sent (snd (sendCommand opcode param1 param2 data w))
       = frames_sent w @ [command_frame opcode param1 param2 data]"
proof (intro conjI)
  show "command_frame opcode param1 param2 data =
     [0x03, of_nat (length (command_frame opcode param1 param2 data) - 1), opcode, param1,
      ucast param2, ucast (drop_bit 8 param2)]
       @ data
       @ bytes_of_uint16 (crc16 (Some (take (length data + 5)
                                          (drop 1 (command_frame opcode param1 param2 data)))))"
    unfolding command_frame_covered length_command_frame by (simp add: command_frame_layout)
  show "take (length data + 5) (drop 1 (command_frame opcode param1 param2 data))
       = [of_nat (length data + 7), opcode, param1, ucast param2, ucast (drop_bit 8 param2)] @ data"
    by (rule command_frame_covered)
  show "bytes_of_uint16 c = [ucast c, ucast (drop_bit 8 c)]"
    by (simp add: bytes_of_uint16_def)
  show "length (command_frame opcode param1 param2 data) = length data + 8"
    by (rule length_command_frame)
  show "unat (command_frame opcode param1 param2 data ! 1)
       = length (command_frame opcode param1 param2 data) - 1"
    using assms by (simp add: length_command_frame command_frame_nth1)
  show "frames_sent (snd (sendCommand opcode param1 param2 data w))
       = frames_sent w @ [command_frame opcode param1 param2 data]"
    by (cases "sendCommand opcode param1 param2 data w") (simp add: frames_sendCommand)
qed

lemma write_frame_bytes:
  "command_frame 0x12 0x00 0x0004 [0xFF, 0xFF, 0xFF, 0xFF]
     = [0x03, 0x0B, 0x12, 0x00, 0x04, 0x00, 0xFF, 0xFF, 0xFF, 0xFF, 0xAF, 0xCF]"
  by code_simp

text \<open>
  C3, scenarios: the write of word 4 with four bytes \<open>FF\<close>, whose length byte is 11 in a
  frame of 12 bytes, and a frame with a 128-byte payload, whose length byte is 135.
\<close>

theorem command_frame_format_witness:
  "length [0xFF, 0xFF, 0xFF, 0xFF :: byte] \<le> 248
   \<and> command_frame 0x12 0x00 0x0004 [0xFF, 0xFF, 0xFF, 0xFF]
       = [0x03, 0x0B, 0x12, 0x00, 0x04, 0x00, 0xFF, 0xFF, 0xFF, 0xFF, 0xAF, 0xCF]
   \<and> unat (command_frame 0x12 0x00 0x0004 [0xFF, 0xFF, 0xFF, 0xFF] ! 1) = 11
   \<and> length (command_frame 0x12 0x00 0x0004 [0xFF, 0xFF, 0xFF, 0xFF]) - 1 = 11
   \<and> length (replicate 128 (0x00 :: byte)) \<le> 248
   \<and> unat (command_frame 0x45 0x02 0x0004 (replicate 128 0x00) ! 1) = 135
   \<and> length (command_frame 0x45 0x02 0x0004 (replicate 128 0x00)) - 1 = 135"
proof -
  have a: "length [0xFF, 0xFF, 0xFF, 0xFF :: byte] \<le> 248" by simp
  have b: "length (replicate 128 (0x00 :: byte)) \<le> 248" by simp
  from command_frame_format [OF a, of "0x12" "0x00" "0x0004"]
    command_frame_format [OF b, of "0x45" "0x02" "0x0004"]
  show ?thesis
    by (simp add: write_frame_bytes)
qed

subsection \<open>Receiving a response\<close>

lemma requestFrom_props:
  assumes "wire_requestFrom a buf n w = (k, buf1, w1)" and "length buf = n"
  shows "length buf1 = n" and "trace w1 = trace w @ [RequestFrom a n]"
    and "device_address w1 = device_address w"
  using assms
  by (auto simp add: wire_requestFrom_def emit_def Let_def split: list.splits)

lemma requestLoop_props:
  "length buf = n \<Longrightarrow> requestLoop r n buf w = (buf1, w1) \<Longrightarrow>
     length buf1 = n \<and> device_address w1 = device_address w
     \<and> (\<exists>k. 1 \<le> k \<and> k \<le> r + 1
            \<and> trace w1 = trace w @ replicate k (RequestFrom (device_address w) n))"
proof (induction r arbitrary: buf w)
  case 0
  obtain k b2 w2 where rq: "wire_requestFrom (device_address w) buf n w = (k, b2, w2)"
    by (cases "wire_requestFrom (device_address w) buf n w") auto
  from 0 rq have e: "buf1 = b2" "w1 = w2" by simp_all
  from requestFrom_props [OF rq "0.prems"(1)] show ?case
    unfolding e by (auto intro: exI [of _ 1])
next
  case (Suc r)
  obtain k b2 w2 where rq: "wire_requestFrom (device_address w) buf n w = (k, b2, w2)"
    by (cases "wire_requestFrom (device_address w) buf n w") auto
  note p = requestFrom_props [OF rq Suc.prems(1)]
  show ?case
  proof (cases "k = n")
    case True
    with Suc.prems(2) rq have e: "buf1 = b2" "w1 = w2" by simp_all
    from p show ?thesis unfolding e by (auto intro: exI [of _ 1])
  next
    case False
    with Suc.prems(2) rq have "requestLoop r n b2 w2 = (buf1, w1)" by simp
    from Suc.IH [OF p(1) this] obtain j where
      j: "length buf1 = n" "device_address w1 = device_address w2" "1 \<le> j" "j \<le> r + 1"
        "trace w1 = trace w2 @ replicate j (RequestFrom (device_address w2) n)"
      by auto
    have "trace w1 = trace w @ replicate (Suc j) (RequestFrom (device_address w) n)"
      using j(5) p(2,3) by (simp add: replicate_app_Cons_same)
    with j p(3) show ?thesis by (auto intro: exI [of _ "Suc j"])
  qed
qed

lemma uninitialised_props:
  assumes "uninitialised n w = (buf, w1)"
  shows "length buf = n" and "trace w1 = trace w" and "device_address w1 = device_address w"
  using assms by (auto simp add: uninitialised_def split: list.splits)

text \<open>
  Whatever the bus delivered: \<open>receiveResponse\<close> validates the buffer as the polling loop
  leaves it, and reads nothing after the validation.
\<close>

lemma receiveResponse_after_polling:
  assumes "uninitialised (len + 3) w = (buffer0, w0)"
    and "requestLoop 20 (len + 3) buffer0 w0 = (frame, w1)"
  shows "length frame = len + 3
   \<and> receiveResponse response len w =
       (if unat (frame ! 0) = len + 3
           \<and> (ucast (frame ! (len + 1)) OR push_bit 8 (ucast (frame ! (len + 2))) :: uint16_t)
               = crc16 (Some (take (len + 1) frame))
        then (1, take len (drop 1 frame) @ drop len response, w1)
        else (0, response, w1))
   \<and> (\<exists>k. 1 \<le> k \<and> k \<le> 21
          \<and> trace w1 = trace w @ replicate k (RequestFrom (device_address w) (len + 3)))"
proof -
  note u = uninitialised_props [OF assms(1)]
  from requestLoop_props [OF u(1) assms(2)] u(2,3)
  have l: "length frame = len + 3"
    and t: "\<exists>k. 1 \<le> k \<and> k \<le> 21
          \<and> trace w1 = trace w @ replicate k (RequestFrom (device_address w) (len + 3))"
    by auto
  have r: "receiveResponse response len w =
       (if unat (frame ! 0) = len + 3
           \<and> (ucast (frame ! (len + 1)) OR push_bit 8 (ucast (frame ! (len + 2))) :: uint16_t)
               = crc16 (Some (take (len + 1) frame))
        then (1, take len (drop 1 frame) @ drop len response, w1)
        else (0, response, w1))"
    using assms by (simp add: receiveResponse_def Let_def memcpy_def)
  from l r t show ?thesis by blast
qed

lemma requestLoop_script:
  assumes "\<forall>r \<in> set pre. length r < n" and "length pre \<le> k" and "n \<le> length f"
    and "length buf = n"
  shows "requestLoop k n buf
           \<lparr>device_address = a, trace = t, acks = ks, reads = pre @ f # rs, junk = j\<rparr>
         = (take n f,
            \<lparr>device_address = a, trace = t @ replicate (Suc (length pre)) (RequestFrom a n),
               acks = ks, reads = rs, junk = j\<rparr>)"
  using assms
proof (induction pre arbitrary: k buf t)
  case Nil
  then show ?case
    by (cases k) (simp_all add: wire_requestFrom_def emit_def Let_def)
next
  case (Cons r pre)
  then obtain k' where k: "k = Suc k'" and k': "length pre \<le> k'"
    by (cases k) auto
  from Cons.prems have r: "length r < n" and pre: "\<forall>r \<in> set pre. length r < n" by auto
  have step: "wire_requestFrom a buf n
        \<lparr>device_address = a, trace = t, acks = ks, reads = (r # pre) @ f # rs, junk = j\<rparr>
      = (length r, r @ drop (length r) buf,
         \<lparr>device_address = a, trace = t @ [RequestFrom a n], acks = ks, reads = pre @ f # rs,
            junk = j\<rparr>)"
    using r by (simp add: wire_requestFrom_def emit_def Let_def)
  have lb: "length (r @ drop (length r) buf) = n"
    using r Cons.prems(4) by simp
  have "requestLoop k n buf
           \<lparr>device_address = a, trace = t, acks = ks, reads = (r # pre) @ f # rs, junk = j\<rparr>
      = requestLoop k' n (r @ drop (length r) buf)
           \<lparr>device_address = a, trace = t @ [RequestFrom a n], acks = ks, reads = pre @ f # rs,
              junk = j\<rparr>"
    unfolding k using step r by simp
  also have "\<dots> = (take n f,
            \<lparr>device_address = a,
               trace = (t @ [RequestFrom a n]) @ replicate (Suc (length pre)) (RequestFrom a n),
               acks = ks, reads = rs, junk = j\<rparr>)"
    by (rule Cons.IH [OF pre k' Cons.prems(3) lb])
  finally show ?case by (simp add: replicate_app_Cons_same)
qed

text \<open>
  C4. Let the device deliver a complete frame \<open>f\<close> of \<open>len + 3\<close> bytes, possibly after
  up to 20 reads that came back short (\<open>pre\<close>), with \<open>rs\<close> what the bus would deliver
  afterwards. Then \<open>receiveResponse\<close> returns 1 exactly when the length byte \<open>f ! 0\<close>
  equals \<open>len + 3\<close> and the two trailing bytes, read least significant byte first,
  equal the checksum of the length byte and the payload; only then is the payload copied
  into the caller's buffer. Otherwise it returns 0 and the caller's buffer is unchanged.
  In both cases the reads on the bus are the short ones and the one that delivered
  \<open>f\<close>, and \<open>rs\<close> is still to be delivered: a frame that fails the validation is not
  read again.
\<close>

theorem receiveResponse_validation:
  assumes "reads w = pre @ f # rs"
    and "\<forall>r \<in> set pre. length r < len + 3"
    and "length pre \<le> 20"
    and "len + 3 \<le> length f"
  shows "receiveResponse response len w =
       (if unat (f ! 0) = len + 3
           \<and> (ucast (f ! (len + 1)) OR push_bit 8 (ucast (f ! (len + 2))) :: uint16_t)
               = crc16 (Some (take (len + 1) f))
        then (1, take len (drop 1 f) @ drop len response,
              w\<lparr>trace := trace w @ replicate (length pre + 1)
                                       (RequestFrom (device_address w) (len + 3)),
                reads := rs, junk := tl (junk w)\<rparr>)
        else (0, response,
              w\<lparr>trace := trace w @ replicate (length pre + 1)
                                       (RequestFrom (device_address w) (len + 3)),
                reads := rs, junk := tl (junk w)\<rparr>))"
proof -
  obtain a t ks rd j where w: "w = \<lparr>device_address = a, trace = t, acks = ks, reads = rd, junk = j\<rparr>"
    by (cases w) auto
  from assms(1) have rd: "rd = pre @ f # rs" by (simp add: w)
  define fr where "fr = take (len + 3) f"
  have loop: "requestLoop 20 (len + 3) buf
        \<lparr>device_address = a, trace = t, acks = ks, reads = pre @ f # rs, junk = j'\<rparr>
      = (fr, \<lparr>device_address = a,
               trace = t @ replicate (Suc (length pre)) (RequestFrom a (len + 3)),
               acks = ks, reads = rs, junk = j'\<rparr>)" if "length buf = len + 3" for buf j'
    unfolding fr_def by (rule requestLoop_script [OF assms(2) assms(3) assms(4) that])
  have f0: "fr ! 0 = f ! 0" "fr ! (len + 1) = f ! (len + 1)" "fr ! (len + 2) = f ! (len + 2)"
    by (simp_all add: fr_def)
  have f1: "take (len + 3 - 2) fr = take (len + 1) f" "take len (drop 1 fr) = take len (drop 1 f)"
    by (simp_all add: fr_def min_def take_drop)
  show ?thesis
  proof (cases j)
    case Nil
    with f0 f1 show ?thesis
      unfolding w rd
      by (simp add: receiveResponse_def uninitialised_def loop memcpy_def Let_def)
  next
    case (Cons j0 js)
    with f0 f1 show ?thesis
      unfolding w rd
      by (simp add: receiveResponse_def uninitialised_def loop memcpy_def Let_def)
  qed
qed



lemma receiveResponse_result:
  assumes "receiveResponse response len w = (r, response1, w1)"
  shows "r = 0 \<or> r = 1" and "r = 0 \<Longrightarrow> response1 = response"
    and "r \<noteq> 0 \<Longrightarrow> length response = len \<Longrightarrow> length response1 = len"
proof -
  obtain buffer0 w0 where u: "uninitialised (len + 3) w = (buffer0, w0)"
    by (cases "uninitialised (len + 3) w") auto
  obtain frame w2 where q: "requestLoop 20 (len + 3) buffer0 w0 = (frame, w2)"
    by (cases "requestLoop 20 (len + 3) buffer0 w0") auto
  from requestLoop_props [OF uninitialised_props(1) [OF u] q] have l: "length frame = len + 3"
    by simp
  from assms u q show "r = 0 \<or> r = 1"
    by (auto simp add: receiveResponse_def Let_def split: if_splits)
  from assms u q show "r = 0 \<Longrightarrow> response1 = response"
    by (auto simp add: receiveResponse_def Let_def split: if_splits)
  from assms u q l show "r \<noteq> 0 \<Longrightarrow> length response = len \<Longrightarrow> length response1 = len"
    by (auto simp add: receiveResponse_def Let_def memcpy_def split: if_splits)
qed

subsection \<open>Running the driver against a scripted device\<close>

text \<open>
  The lemmas of this part evaluate the driver on a world written out as a record, where
  the next bytes the bus delivers are a well-formed response. They serve the concrete
  scenarios below.
\<close>

lemma requestLoop_complete:
  "length f = n \<Longrightarrow>
   requestLoop k n buf \<lparr>device_address = a, trace = t, acks = ks, reads = f # rs, junk = j\<rparr>
     = (f @ drop n buf,
        \<lparr>device_address = a, trace = t @ [RequestFrom a n], acks = ks, reads = rs, junk = j\<rparr>)"
  by (cases k) (simp_all add: wire_requestFrom_def emit_def Let_def)

lemma length_response_frame: "length (response_frame p) = length p + 3"
  by (simp add: response_frame_def Let_def bytes_of_uint16_def)

lemma response_frame_parts:
  assumes "length p = len"
  shows "response_frame p ! 0 = of_nat (len + 3)"
    and "(ucast (response_frame p ! (len + 1)) OR push_bit 8 (ucast (response_frame p ! (len + 2))) :: uint16_t)
           = crc16 (Some (take (len + 3 - 2) (response_frame p)))"
    and "take len (drop 1 (response_frame p)) = p"
proof -
  define body where "body = (of_nat (len + 3) :: byte) # p"
  define c where "c = crc16 (Some body)"
  have fr: "response_frame p = body @ [ucast c, ucast (drop_bit 8 c)]"
    using assms by (simp add: response_frame_def Let_def bytes_of_uint16_def body_def c_def)
  have lb: "length body = len + 1" using assms by (simp add: body_def)
  show "response_frame p ! 0 = of_nat (len + 3)"
    by (simp add: fr body_def)
  have n1: "response_frame p ! (len + 1) = ucast c"
    unfolding fr using lb by (metis nth_append_length)
  have n2: "response_frame p ! (len + 2) = ucast (drop_bit 8 c)"
    unfolding fr using lb nth_append_length_plus [of body "[ucast c, ucast (drop_bit 8 c)]" 1]
    by (simp add: add.commute)
  have tk: "take (len + 3 - 2) (response_frame p) = body"
    unfolding fr using lb by simp
  show "(ucast (response_frame p ! (len + 1)) OR push_bit 8 (ucast (response_frame p ! (len + 2))) :: uint16_t)
           = crc16 (Some (take (len + 3 - 2) (response_frame p)))"
    unfolding n1 n2 tk by (simp only: uint16_bytes_roundtrip c_def)
  show "take len (drop 1 (response_frame p)) = p"
    unfolding fr using assms by (simp add: body_def)
qed

lemma receiveResponse_accepts:
  assumes lf: "length fr = len + 3"
    and p0: "unat (fr ! 0) = len + 3"
    and pc: "(ucast (fr ! (len + 1)) OR push_bit 8 (ucast (fr ! (len + 2))) :: uint16_t)
           = crc16 (Some (take (len + 3 - 2) fr))"
  shows "receiveResponse response len
           \<lparr>device_address = a, trace = t, acks = ks, reads = fr # rs, junk = j\<rparr>
         = (1, take len (drop 1 fr) @ drop len response,
            \<lparr>device_address = a, trace = t @ [RequestFrom a (len + 3)], acks = ks, reads = rs,
               junk = tl j\<rparr>)"
proof -
  have loop: "requestLoop 20 (len + 3) buf
        \<lparr>device_address = a, trace = t, acks = ks, reads = fr # rs, junk = j'\<rparr>
      = (fr, \<lparr>device_address = a, trace = t @ [RequestFrom a (len + 3)], acks = ks, reads = rs,
               junk = j'\<rparr>)" if "length buf = len + 3" for buf j'
    using that lf by (simp add: requestLoop_complete)
  show ?thesis
  proof (cases j)
    case Nil
    with p0 pc show ?thesis
      by (simp add: receiveResponse_def uninitialised_def loop memcpy_def Let_def)
  next
    case (Cons j0 js)
    with p0 pc show ?thesis
      by (simp add: receiveResponse_def uninitialised_def loop memcpy_def Let_def)
  qed
qed

lemma receiveResponse_frame:
  assumes "length p = len" and "len + 3 < 256"
  shows "receiveResponse response len
           \<lparr>device_address = a, trace = t, acks = ks, reads = response_frame p # rs, junk = j\<rparr>
         = (1, p @ drop len response,
            \<lparr>device_address = a, trace = t @ [RequestFrom a (len + 3)], acks = ks, reads = rs,
               junk = tl j\<rparr>)"
proof -
  have u: "unat (of_nat (len + 3) :: byte) = len + 3"
    using assms(2) by (simp only: unat_of_nat) simp
  have "receiveResponse response len
           \<lparr>device_address = a, trace = t, acks = ks, reads = response_frame p # rs, junk = j\<rparr>
         = (1, take len (drop 1 (response_frame p)) @ drop len response,
            \<lparr>device_address = a, trace = t @ [RequestFrom a (len + 3)], acks = ks, reads = rs,
               junk = tl j\<rparr>)"
  proof (rule receiveResponse_accepts)
    show "length (response_frame p) = len + 3"
      using assms(1) by (simp add: length_response_frame)
    show "unat (response_frame p ! 0) = len + 3"
      using response_frame_parts(1) [OF assms(1)] u by (simp only:)
    show "(ucast (response_frame p ! (len + 1))
             OR push_bit 8 (ucast (response_frame p ! (len + 2))) :: uint16_t)
           = crc16 (Some (take (len + 3 - 2) (response_frame p)))"
      by (rule response_frame_parts(2) [OF assms(1)])
  qed
  then show ?thesis
    by (simp only: response_frame_parts(3) [OF assms(1)])
qed

lemma next_ack_literal:
  "next_ack \<lparr>device_address = a, trace = t, acks = ks, reads = rs, junk = j\<rparr>
     = (case ks of [] \<Rightarrow> 2 | k # ks' \<Rightarrow> k,
        \<lparr>device_address = a, trace = t, acks = tl ks, reads = rs, junk = j\<rparr>)"
  by (cases ks) (simp_all add: next_ack_def)

lemma emit_literal:
  "emit e \<lparr>device_address = a, trace = t, acks = ks, reads = rs, junk = j\<rparr>
     = \<lparr>device_address = a, trace = t @ [e], acks = ks, reads = rs, junk = j\<rparr>"
  by (simp add: emit_def)

lemma wakeup_frame:
  "wakeup \<lparr>device_address = a, trace = t, acks = ks, reads = response_frame [0x11] # rs, junk = j\<rparr>
     = (1, \<lparr>device_address = a,
            trace = t @ [BeginTransmission 0x00, EndTransmission, DelayMicroseconds 800,
                         RequestFrom a 4],
            acks = tl ks, reads = rs, junk = tl j\<rparr>)"
  by (simp add: wakeup_def wire_endTransmission_def emit_literal next_ack_literal
        delayMicroseconds_def receiveResponse_frame Let_def)

lemma idle_literal:
  "idle \<lparr>device_address = a, trace = t, acks = ks, reads = rs, junk = j\<rparr>
     = (if (case ks of [] \<Rightarrow> 2 | k # ks' \<Rightarrow> k) \<noteq> (0::nat) then 0 else 1,
        \<lparr>device_address = a, trace = t @ [BeginTransmission a, WireWrite 0x02, EndTransmission],
           acks = tl ks, reads = rs, junk = j\<rparr>)"
  by (simp add: idle_def wire_endTransmission_def emit_literal next_ack_literal Let_def)

lemma sendCommand_literal:
  "sendCommand opcode param1 param2 data
       \<lparr>device_address = a, trace = t, acks = ks, reads = rs, junk = j\<rparr>
     = (if (case ks of [] \<Rightarrow> 2 | k # ks' \<Rightarrow> k) \<noteq> (0::nat) then 0 else 1,
        \<lparr>device_address = a, trace = t @ [SendTo a (command_frame opcode param1 param2 data)],
           acks = tl ks, reads = rs, junk = j\<rparr>)"
  by (simp add: sendCommand_def wire_sendTo_def emit_literal next_ack_literal)

lemma delay_literal:
  "delay n \<lparr>device_address = a, trace = t, acks = ks, reads = rs, junk = j\<rparr>
     = \<lparr>device_address = a, trace = t @ [Delay n], acks = ks, reads = rs, junk = j\<rparr>"
  by (simp add: delay_def emit_def)

lemma wake_response_bytes: "response_frame [0x11] = [0x04, 0x11, 0x33, 0x43]"
  by code_simp

lemma ok_response_bytes: "response_frame [0x00] = [0x04, 0x00, 0x03, 0x40]"
  by code_simp

lemma error_response_bytes: "response_frame [0x0F] = [0x04, 0x0F, 0x23, 0x42]"
  by code_simp

lemma version_response_bytes:
  "response_frame [0x00, 0x00, 0x50, 0x00] = [0x07, 0x00, 0x00, 0x50, 0x00, 0x03, 0x91]"
  by code_simp

lemma other_version_response_bytes:
  "response_frame [0x00, 0x00, 0x50, 0x01] = [0x07, 0x00, 0x00, 0x50, 0x01, 0x00, 0x12]"
  by code_simp

lemma locked_config_response_bytes:
  "response_frame [0x01, 0x23, 0x00, 0x00] = [0x07, 0x01, 0x23, 0x00, 0x00, 0x6F, 0xA2]"
  by code_simp

lemma unlocked_config_response_bytes:
  "response_frame [0x01, 0x23, 0x55, 0x55] = [0x07, 0x01, 0x23, 0x55, 0x55, 0x99, 0x5D]"
  by code_simp

lemmas stub_frames =
  wake_response_bytes [symmetric] ok_response_bytes [symmetric] error_response_bytes [symmetric]
  version_response_bytes [symmetric] other_version_response_bytes [symmetric]
  locked_config_response_bytes [symmetric] unlocked_config_response_bytes [symmetric]

lemmas stub_run =
  wakeup_frame sendCommand_literal delay_literal receiveResponse_frame idle_literal emit_literal
  Let_def

lemma crc16_wake: "crc16 (Some [0x04, 0x11]) = 0x4333"
  by code_simp

lemma lock_frame_bytes:
  "command_frame 0x17 0x80 0x0000 [] = [0x03, 0x07, 0x17, 0x80, 0x00, 0x00, 0x39, 0x8D]"
  "command_frame 0x17 0x81 0x0000 [] = [0x03, 0x07, 0x17, 0x81, 0x00, 0x00, 0x3A, 0x07]"
  by code_simp+

lemma sign_frame_bytes:
  "command_frame 0x1b 0x00 0x0000 [] = [0x03, 0x07, 0x1B, 0x00, 0x00, 0x00, 0x24, 0xCD]"
  "command_frame 0x41 0x80 0x0000 [] = [0x03, 0x07, 0x41, 0x80, 0x00, 0x00, 0x28, 0x05]"
  by code_simp+

text \<open>
  C4, scenarios. A device answers the one-byte wake-up request. After one empty read, the
  well-formed frame \<open>04 11 33 43\<close> is accepted and the payload \<open>11\<close> copied. A frame
  with a wrong length byte, or with one checksum byte altered, makes the call return 0
  after that single read, with the caller's byte untouched; the well-formed frame the
  device would deliver next stays unread.
\<close>

theorem receiveResponse_validation_witness:
  "receiveResponse [0x00] 1
       \<lparr>device_address = 0x60, trace = [], acks = [],
          reads = [[], [0x04, 0x11, 0x33, 0x43]], junk = [[0xDE, 0xAD, 0xBE, 0xEF]]\<rparr>
     = (1, [0x11],
        \<lparr>device_address = 0x60, trace = [RequestFrom 0x60 4, RequestFrom 0x60 4], acks = [],
           reads = [], junk = []\<rparr>)
   \<and> receiveResponse [0x00] 1
       \<lparr>device_address = 0x60, trace = [], acks = [],
          reads = [[0x05, 0x11, 0x33, 0x43], [0x04, 0x11, 0x33, 0x43]], junk = []\<rparr>
     = (0, [0x00],
        \<lparr>device_address = 0x60, trace = [RequestFrom 0x60 4], acks = [],
           reads = [[0x04, 0x11, 0x33, 0x43]], junk = []\<rparr>)
   \<and> receiveResponse [0x00] 1
       \<lparr>device_address = 0x60, trace = [], acks = [],
          reads = [[0x04, 0x11, 0x33, 0x44], [0x04, 0x11, 0x33, 0x43]], junk = []\<rparr>
     = (0, [0x00],
        \<lparr>device_address = 0x60, trace = [RequestFrom 0x60 4], acks = [],
           reads = [[0x04, 0x11, 0x33, 0x43]], junk = []\<rparr>)"
  using receiveResponse_validation
          [of "\<lparr>device_address = 0x60, trace = [], acks = [],
                 reads = [[], [0x04, 0x11, 0x33, 0x43]], junk = [[0xDE, 0xAD, 0xBE, 0xEF]]\<rparr>"
              "[[]]" "[0x04, 0x11, 0x33, 0x43]" "[]" 1 "[0x00]"]
        receiveResponse_validation
          [of "\<lparr>device_address = 0x60, trace = [], acks = [],
                 reads = [[0x05, 0x11, 0x33, 0x43], [0x04, 0x11, 0x33, 0x43]], junk = []\<rparr>"
              "[]" "[0x05, 0x11, 0x33, 0x43]" "[[0x04, 0x11, 0x33, 0x43]]" 1 "[0x00]"]
        receiveResponse_validation
          [of "\<lparr>device_address = 0x60, trace = [], acks = [],
                 reads = [[0x04, 0x11, 0x33, 0x44], [0x04, 0x11, 0x33, 0x43]], junk = []\<rparr>"
              "[]" "[0x04, 0x11, 0x33, 0x44]" "[[0x04, 0x11, 0x33, 0x43]]" 1 "[0x00]"]
  by (simp add: crc16_wake)

subsection \<open>Commands that follow the wake, send, wait, receive, idle pattern\<close>

lemma exchange_frames:
  assumes k0: "wakeup w = (r0, w0)"
    and k2: "sendCommand opcode param1 param2 data w0 = (r2, w2)"
    and k3: "receiveResponse buf n (delay t w2) = (r3, buf1, w3)"
  shows "frames_sent w0 = frames_sent w"
    and "frames_sent w2 = frames_sent w @ [command_frame opcode param1 param2 data]"
    and "frames_sent w3 = frames_sent w @ [command_frame opcode param1 param2 data]"
    and "frames_sent (snd (idle (delay 1 w3)))
           = frames_sent w @ [command_frame opcode param1 param2 data]"
proof -
  show a: "frames_sent w0 = frames_sent w" by (rule frames_wakeup [OF k0])
  show b: "frames_sent w2 = frames_sent w @ [command_frame opcode param1 param2 data]"
    using frames_sendCommand [OF k2] a by simp
  show c: "frames_sent w3 = frames_sent w @ [command_frame opcode param1 param2 data]"
    using frames_receiveResponse [OF k3] b by (simp add: frames_delay)
  show "frames_sent (snd (idle (delay 1 w3)))
           = frames_sent w @ [command_frame opcode param1 param2 data]"
    using c by (simp add: frames_snd_idle frames_delay)
qed

lemma one_frame_cases:
  assumes "frames_sent w1 = frames_sent w \<or> frames_sent w1 = frames_sent w @ [f]"
    and "r \<noteq> 0 \<Longrightarrow> frames_sent w1 = frames_sent w @ [f]"
    and "r = 0 \<or> r = (1::int)"
  shows "\<exists>b. frames_sent w1 = frames_sent w @ (if b then [f] else [])
           \<and> (r \<noteq> 0 \<longrightarrow> b) \<and> (r = 0 \<or> r = 1)"
proof (cases "frames_sent w1 = frames_sent w @ [f]")
  case True
  with assms(3) show ?thesis by (intro exI [of _ True]) simp
next
  case False
  with assms show ?thesis by (intro exI [of _ False]) auto
qed

subsection \<open>Zone reads and writes of a wrong length\<close>

text \<open>
  C1 (as amended). For every zone read or write request whose length is neither 4 nor 32,
  the operation returns 0, the caller's buffer is unchanged, and no command frame is
  sent. The wake sequence does run first, since the length is checked after it: the world
  is left exactly as \<open>wakeup\<close> leaves it.
\<close>

theorem zone_length_rejected:
  assumes "len \<noteq> 4" and "len \<noteq> 32"
  shows "read zone address buffer len w = (0, buffer, snd (wakeup w))
       \<and> write_zone zone address buffer len w = (0, snd (wakeup w))
       \<and> frames_sent (snd (wakeup w)) = frames_sent w"
  using assms frames_wakeup [of w]
  by (cases "wakeup w") (simp add: read_def write_zone_def)

text \<open>
  C1, scenario: a read and a write of 16 bytes against a device that answers the wake-up.
\<close>

theorem zone_length_rejected_witness:
  "(16::int) \<noteq> 4 \<and> (16::int) \<noteq> 32
   \<and> read 0 5 [0xAA] 16
         \<lparr>device_address = 0x60, trace = [], acks = [0],
            reads = [[0x04, 0x11, 0x33, 0x43]], junk = []\<rparr>
       = (0, [0xAA],
          \<lparr>device_address = 0x60,
             trace = [BeginTransmission 0x00, EndTransmission, DelayMicroseconds 800,
                      RequestFrom 0x60 4],
             acks = [], reads = [], junk = []\<rparr>)
   \<and> write_zone 0 5 [0xAA] 16
         \<lparr>device_address = 0x60, trace = [], acks = [0],
            reads = [[0x04, 0x11, 0x33, 0x43]], junk = []\<rparr>
       = (0,
          \<lparr>device_address = 0x60,
             trace = [BeginTransmission 0x00, EndTransmission, DelayMicroseconds 800,
                      RequestFrom 0x60 4],
             acks = [], reads = [], junk = []\<rparr>)"
  using zone_length_rejected [of 16 0 5 "[0xAA]"
          "\<lparr>device_address = 0x60, trace = [], acks = [0],
             reads = [[0x04, 0x11, 0x33, 0x43]], junk = []\<rparr>"]
  by (simp add: stub_frames stub_run)

text \<open>
  C1, counterexample to the claim as stated: a read of 5 bytes is rejected, but only
  after the wake sequence has gone over the bus (a zero-address transmission and a
  4-byte read from the device).
\<close>

theorem zone_length_check_follows_wake:
  "read 0 0 [0, 0, 0, 0, 0] 5
       \<lparr>device_address = 0x60, trace = [], acks = [0], reads = [[0x04, 0x11, 0x33, 0x43]],
          junk = []\<rparr>
     = (0, [0, 0, 0, 0, 0],
        \<lparr>device_address = 0x60,
           trace = [BeginTransmission 0x00, EndTransmission, DelayMicroseconds 800,
                    RequestFrom 0x60 4],
           acks = [], reads = [], junk = []\<rparr>)"
  by (simp add: read_def stub_frames stub_run)

subsection \<open>Random bytes of length zero\<close>

lemma random_loop_zero: "random_loop data off 0 w = (1, data, w)"
  by (simp add: random_loop.simps)

text \<open>
  C10. When the wake sequence succeeds, \<open>random\<close> with length 0 returns 1, leaves the
  output buffer as it was and sends no command frame: after the wake-up it only waits
  1 ms and idles the device (the status of the idle transmission is not consulted).
\<close>

theorem random_zero_length:
  assumes "fst (wakeup w) \<noteq> 0"
  shows "random data 0 w = (1, data, snd (idle (delay 1 (snd (wakeup w)))))
       \<and> frames_sent (snd (snd (random data 0 w))) = frames_sent w"
  using assms frames_wakeup [of w]
  by (cases "wakeup w")
     (simp add: random_def random_loop.simps Let_def frames_snd_idle frames_delay)

text \<open>
  C10, scenario: a two-byte buffer and a device that answers the wake-up.
\<close>

theorem random_zero_length_witness:
  "fst (wakeup \<lparr>device_address = 0x60, trace = [], acks = [0, 0],
                 reads = [[0x04, 0x11, 0x33, 0x43]], junk = []\<rparr>) \<noteq> 0
   \<and> random [0xAA, 0xBB] 0
         \<lparr>device_address = 0x60, trace = [], acks = [0, 0],
            reads = [[0x04, 0x11, 0x33, 0x43]], junk = []\<rparr>
       = (1, [0xAA, 0xBB],
          \<lparr>device_address = 0x60,
             trace = [BeginTransmission 0x00, EndTransmission, DelayMicroseconds 800,
                      RequestFrom 0x60 4, Delay 1, BeginTransmission 0x60, WireWrite 0x02,
                      EndTransmission],
             acks = [], reads = [], junk = []\<rparr>)"
  using random_zero_length [of "\<lparr>device_address = 0x60, trace = [], acks = [0, 0],
                 reads = [[0x04, 0x11, 0x33, 0x43]], junk = []\<rparr>" "[0xAA, 0xBB]"]
  by (simp add: stub_frames stub_run)

subsection \<open>Opening the device\<close>



subsection \<open>The lock status\<close>

lemma read4_unfold:
  assumes k0: "wakeup w = (r0, w0)"
    and k2: "sendCommand 0x02 (word_of_int zone) (word_of_int address) [] w0 = (r2, w2)"
    and k3: "receiveResponse buffer 4 (delay 1 w2) = (r3, buf1, w3)"
  shows "read zone address buffer 4 w =
      (if r0 = 0 then (0, buffer, w0) else if r2 = 0 then (0, buffer, w2)
       else if r3 = 0 then (0, buf1, w3)
       else (4, buf1, snd (idle (delay 1 w3))))"
  using k0 k2 k3 by (simp add: read_def Let_def)

lemma read4_frames:
  "frames_sent (snd (snd (read zone address buffer 4 w))) = frames_sent w
   \<or> frames_sent (snd (snd (read zone address buffer 4 w)))
       = frames_sent w @ [command_frame 0x02 (word_of_int zone) (word_of_int address) []]"
proof -
  obtain r0 w0 where k0: "wakeup w = (r0, w0)" by (cases "wakeup w") auto
  obtain r2 w2 where
    k2: "sendCommand 0x02 (word_of_int zone) (word_of_int address) [] w0 = (r2, w2)"
    by (cases "sendCommand 0x02 (word_of_int zone) (word_of_int address) [] w0") auto
  obtain r3 buf1 w3 where k3: "receiveResponse buffer 4 (delay 1 w2) = (r3, buf1, w3)"
    by (cases "receiveResponse buffer 4 (delay 1 w2)") auto
  note f = exchange_frames [OF k0 k2 k3]
  show ?thesis
    unfolding read4_unfold [OF k0 k2 k3] using f by simp
qed

text \<open>
  C9. \<open>locked\<close> reads 4 bytes of the configuration zone at word address \<open>0x15\<close>.
  When that read fails it returns 0, the value it also returns for an unlocked device; it
  returns 1 exactly when the read succeeds and the bytes at index 2 and 3 are both zero.
  It sends at most the one read command.
\<close>

theorem locked_result:
  "(fst (read 0 0x15 (replicate 4 0) 4 w) = 0 \<longrightarrow> fst (locked w) = 0)
   \<and> (fst (locked w) = 1 \<longleftrightarrow>
        (fst (read 0 0x15 (replicate 4 0) 4 w) \<noteq> 0
         \<and> fst (snd (read 0 0x15 (replicate 4 0) 4 w)) ! 2 = 0x00
         \<and> fst (snd (read 0 0x15 (replicate 4 0) 4 w)) ! 3 = 0x00))
   \<and> (fst (locked w) = 0 \<or> fst (locked w) = 1)
   \<and> snd (locked w) = snd (snd (read 0 0x15 (replicate 4 0) 4 w))
   \<and> (frames_sent (snd (locked w)) = frames_sent w
        \<or> frames_sent (snd (locked w)) = frames_sent w @ [command_frame 0x02 0x00 0x0015 []])"
proof -
  have s: "snd (locked w) = snd (snd (read 0 0x15 (replicate 4 0) 4 w))"
    by (cases "read 0 0x15 (replicate 4 0) 4 w") (auto simp add: locked_def)
  have f: "frames_sent (snd (locked w)) = frames_sent w
        \<or> frames_sent (snd (locked w)) = frames_sent w @ [command_frame 0x02 0x00 0x0015 []]"
    unfolding s using read4_frames [of 0 "0x15" "replicate 4 0" w] by simp
  have r: "(fst (read 0 0x15 (replicate 4 0) 4 w) = 0 \<longrightarrow> fst (locked w) = 0)
   \<and> (fst (locked w) = 1 \<longleftrightarrow>
        (fst (read 0 0x15 (replicate 4 0) 4 w) \<noteq> 0
         \<and> fst (snd (read 0 0x15 (replicate 4 0) 4 w)) ! 2 = 0x00
         \<and> fst (snd (read 0 0x15 (replicate 4 0) 4 w)) ! 3 = 0x00))
   \<and> (fst (locked w) = 0 \<or> fst (locked w) = 1)"
    by (cases "read 0 0x15 (replicate 4 0) 4 w") (auto simp add: locked_def)
  from r s f show ?thesis by blast
qed

text \<open>
  C9, scenarios: the bus refuses the read command (result 0), the device reports the
  status bytes \<open>55 55\<close> (result 0), the device reports \<open>00 00\<close> (result 1).
\<close>

theorem locked_result_witness:
  "fst (read 0 0x15 (replicate 4 0) 4
         \<lparr>device_address = 0x60, trace = [], acks = [0, 2],
            reads = [[0x04, 0x11, 0x33, 0x43]], junk = []\<rparr>) = 0
   \<and> fst (locked \<lparr>device_address = 0x60, trace = [], acks = [0, 2],
            reads = [[0x04, 0x11, 0x33, 0x43]], junk = []\<rparr>) = 0
   \<and> fst (locked \<lparr>device_address = 0x60, trace = [], acks = [0, 0, 0],
            reads = [[0x04, 0x11, 0x33, 0x43], [0x07, 0x01, 0x23, 0x55, 0x55, 0x99, 0x5D]],
            junk = []\<rparr>) = 0
   \<and> fst (locked \<lparr>device_address = 0x60, trace = [], acks = [0, 0, 0],
            reads = [[0x04, 0x11, 0x33, 0x43], [0x07, 0x01, 0x23, 0x00, 0x00, 0x6F, 0xA2]],
            junk = []\<rparr>) = 1"
  using locked_result [of "\<lparr>device_address = 0x60, trace = [], acks = [0, 2],
            reads = [[0x04, 0x11, 0x33, 0x43]], junk = []\<rparr>"]
    locked_result [of "\<lparr>device_address = 0x60, trace = [], acks = [0, 0, 0],
            reads = [[0x04, 0x11, 0x33, 0x43], [0x07, 0x01, 0x23, 0x55, 0x55, 0x99, 0x5D]],
            junk = []\<rparr>"]
    locked_result [of "\<lparr>device_address = 0x60, trace = [], acks = [0, 0, 0],
            reads = [[0x04, 0x11, 0x33, 0x43], [0x07, 0x01, 0x23, 0x00, 0x00, 0x6F, 0xA2]],
            junk = []\<rparr>"]
  by (auto simp add: read_def stub_frames stub_run)

subsection \<open>Locking the device\<close>

lemma lock_zone_unfold:
  assumes k0: "wakeup w = (r0, w0)"
    and k2: "sendCommand 0x17 (word_of_int (0x80 OR zone)) 0x0000 [] w0 = (r2, w2)"
    and k3: "receiveResponse [0] 1 (delay 32 w2) = (r3, st, w3)"
  shows "lock_zone zone w =
      (if r0 = 0 then (0, w0) else if r2 = 0 then (0, w2) else if r3 = 0 then (0, w3)
       else (if st ! 0 \<noteq> 0 then 0 else 1, snd (idle (delay 1 w3))))"
  using k0 k2 k3 by (simp add: lock_zone_def Let_def)

lemma lock_zone_sent:
  assumes "lock_zone zone w = (r, w1)"
  shows "\<exists>b. frames_sent w1
             = frames_sent w
                 @ (if b then [command_frame 0x17 (word_of_int (0x80 OR zone)) 0x0000 []] else [])
           \<and> (r \<noteq> 0 \<longrightarrow> b) \<and> (r = 0 \<or> r = 1)"
proof -
  let ?f = "command_frame 0x17 (word_of_int (0x80 OR zone)) 0x0000 []"
  obtain r0 w0 where k0: "wakeup w = (r0, w0)" by (cases "wakeup w") auto
  obtain r2 w2 where
    k2: "sendCommand 0x17 (word_of_int (0x80 OR zone)) 0x0000 [] w0 = (r2, w2)"
    by (cases "sendCommand 0x17 (word_of_int (0x80 OR zone)) 0x0000 [] w0") auto
  obtain r3 st w3 where k3: "receiveResponse [0] 1 (delay 32 w2) = (r3, st, w3)"
    by (cases "receiveResponse [0] 1 (delay 32 w2)") auto
  note f = exchange_frames [OF k0 k2 k3]
  note u = lock_zone_unfold [OF k0 k2 k3]
  show ?thesis
  proof (rule one_frame_cases)
    show "frames_sent w1 = frames_sent w \<or> frames_sent w1 = frames_sent w @ [?f]"
      using assms u f by (simp split: if_splits)
    show "r \<noteq> 0 \<Longrightarrow> frames_sent w1 = frames_sent w @ [?f]"
      using assms u f by (simp split: if_splits)
    show "r = 0 \<or> r = 1"
      using assms u by (simp split: if_splits)
  qed
qed

text \<open>
  C6. \<open>lock\<close> first runs the zone lock for zone 0; when that fails it returns 0 and
  the world is left as the zone-0 attempt left it, so nothing is attempted for zone 1.
  Otherwise it runs the zone lock for zone 1 and returns its outcome. On the bus, the lock
  commands sent are a prefix of: the zone-0 lock frame, the zone-1 lock frame; at most
  the first when the zone-0 lock failed, both when \<open>lock\<close> returns 1.
\<close>

theorem lock_order:
  "lock w =
     (let z0 = lock_zone 0 w
      in if fst z0 = 0 then (0, snd z0)
         else (let z1 = lock_zone 1 (snd z0)
               in if fst z1 = 0 then (0, snd z1) else (1, snd z1)))
   \<and> (\<exists>n. n \<le> 2
        \<and> frames_sent (snd (lock w))
            = frames_sent w
                @ take n [command_frame 0x17 0x80 0x0000 [], command_frame 0x17 0x81 0x0000 []]
        \<and> (fst (lock_zone 0 w) = 0 \<longrightarrow> n \<le> 1)
        \<and> (fst (lock w) = 1 \<longrightarrow> n = 2))
   \<and> (fst (lock w) = 0 \<or> fst (lock w) = 1)"
proof -
  obtain r0 w0 where k0: "lock_zone 0 w = (r0, w0)" by (cases "lock_zone 0 w") auto
  obtain r1 w1 where k1: "lock_zone 1 w0 = (r1, w1)" by (cases "lock_zone 1 w0") auto
  have p: "(word_of_int (0x80 OR 0) :: byte) = 0x80" "(word_of_int (0x80 OR 1) :: byte) = 0x81"
    by simp_all
  from lock_zone_sent [OF k0, unfolded p] obtain b0 where
    f0: "frames_sent w0 = frames_sent w @ (if b0 then [command_frame 0x17 0x80 0x0000 []] else [])"
      "r0 \<noteq> 0 \<longrightarrow> b0" "r0 = 0 \<or> r0 = 1"
    by blast
  from lock_zone_sent [OF k1, unfolded p] obtain b1 where
    f1: "frames_sent w1 = frames_sent w0 @ (if b1 then [command_frame 0x17 0x81 0x0000 []] else [])"
      "r1 \<noteq> 0 \<longrightarrow> b1" "r1 = 0 \<or> r1 = 1"
    by blast
  have e: "lock w = (if r0 = 0 then (0, w0) else if r1 = 0 then (0, w1) else (1, w1))"
    using k0 k1 by (simp add: lock_def)
  have c1: "lock w =
     (let z0 = lock_zone 0 w
      in if fst z0 = 0 then (0, snd z0)
         else (let z1 = lock_zone 1 (snd z0)
               in if fst z1 = 0 then (0, snd z1) else (1, snd z1)))"
    unfolding e using k0 k1 by (simp add: Let_def)
  have c2: "\<exists>n. n \<le> 2
        \<and> frames_sent (snd (lock w))
            = frames_sent w
                @ take n [command_frame 0x17 0x80 0x0000 [], command_frame 0x17 0x81 0x0000 []]
        \<and> (fst (lock_zone 0 w) = 0 \<longrightarrow> n \<le> 1)
        \<and> (fst (lock w) = 1 \<longrightarrow> n = 2)"
  proof (cases "r0 = 0")
    case True
    then show ?thesis
      unfolding e k0 using f0(1) by (intro exI [of _ "if b0 then 1 else 0"]) simp
  next
    case n0: False
    with f0 have g0: "frames_sent w0 = frames_sent w @ [command_frame 0x17 0x80 0x0000 []]"
      by simp
    show ?thesis
    proof (cases "r1 = 0")
      case True
      then show ?thesis
        unfolding e k0 using n0 f1(1) g0 by (intro exI [of _ "if b1 then 2 else 1"]) simp
    next
      case False
      with f1 g0 show ?thesis
        unfolding e k0 using n0 by (intro exI [of _ 2]) simp
    qed
  qed
  have c3: "fst (lock w) = 0 \<or> fst (lock w) = 1"
    unfolding e by simp
  from c1 c2 c3 show ?thesis by blast
qed

text \<open>
  C6, scenarios: a device that answers the zone-0 lock with the error status \<open>0F\<close>
  (only the zone-0 frame goes out), and a device that accepts both locks.
\<close>

theorem lock_order_witness:
  "lock \<lparr>device_address = 0x60, trace = [], acks = [0, 0, 0],
          reads = [[0x04, 0x11, 0x33, 0x43], [0x04, 0x0F, 0x23, 0x42]], junk = []\<rparr>
     = (0, \<lparr>device_address = 0x60,
            trace = [BeginTransmission 0x00, EndTransmission, DelayMicroseconds 800,
                     RequestFrom 0x60 4,
                     SendTo 0x60 [0x03, 0x07, 0x17, 0x80, 0x00, 0x00, 0x39, 0x8D],
                     Delay 32, RequestFrom 0x60 4, Delay 1,
                     BeginTransmission 0x60, WireWrite 0x02, EndTransmission],
            acks = [], reads = [], junk = []\<rparr>)
   \<and> fst (lock \<lparr>device_address = 0x60, trace = [], acks = [0, 0, 0, 0, 0, 0],
          reads = [[0x04, 0x11, 0x33, 0x43], [0x04, 0x00, 0x03, 0x40],
                   [0x04, 0x11, 0x33, 0x43], [0x04, 0x00, 0x03, 0x40]], junk = []\<rparr>) = 1
   \<and> frames_sent (snd (lock \<lparr>device_address = 0x60, trace = [], acks = [0, 0, 0, 0, 0, 0],
          reads = [[0x04, 0x11, 0x33, 0x43], [0x04, 0x00, 0x03, 0x40],
                   [0x04, 0x11, 0x33, 0x43], [0x04, 0x00, 0x03, 0x40]], junk = []\<rparr>))
       = [[0x03, 0x07, 0x17, 0x80, 0x00, 0x00, 0x39, 0x8D],
          [0x03, 0x07, 0x17, 0x81, 0x00, 0x00, 0x3A, 0x07]]"
  using lock_order [of "\<lparr>device_address = 0x60, trace = [], acks = [0, 0, 0],
          reads = [[0x04, 0x11, 0x33, 0x43], [0x04, 0x0F, 0x23, 0x42]], junk = []\<rparr>"]
    lock_order [of "\<lparr>device_address = 0x60, trace = [], acks = [0, 0, 0, 0, 0, 0],
          reads = [[0x04, 0x11, 0x33, 0x43], [0x04, 0x00, 0x03, 0x40],
                   [0x04, 0x11, 0x33, 0x43], [0x04, 0x00, 0x03, 0x40]], junk = []\<rparr>"]
  by (simp add: lock_zone_def stub_frames stub_run lock_frame_bytes [symmetric]
        frames_sent_def frame_of_def)

subsection \<open>Signing\<close>

lemma random32_unfold:
  assumes k0: "wakeup w = (r0, w0)"
    and k2: "sendCommand 0x1b 0x00 0x0000 [] w0 = (r2, w2)"
    and k3: "receiveResponse (replicate 32 0) 32 (delay 23 w2) = (r3, resp, w3)"
  shows "random d 32 w =
      (if r0 = 0 then (0, d, w0) else if r2 = 0 then (0, d, w2) else if r3 = 0 then (0, d, w3)
       else (1, memcpy_at d 0 resp 32, snd (idle (delay 1 w3))))"
proof -
  have loop: "random_loop d 0 32 w0 =
      (if r2 = 0 then (0, d, w2) else if r3 = 0 then (0, d, w3)
       else (1, memcpy_at d 0 resp 32, w3))"
    using k2 k3 by (subst random_loop.simps) (simp add: Let_def random_loop_zero)
  show ?thesis using k0 by (simp add: random_def loop Let_def)
qed

lemma random32_frames:
  assumes "random d 32 w = (r, d1, w1)"
  shows "\<exists>b. frames_sent w1 = frames_sent w @ (if b then [command_frame 0x1b 0x00 0x0000 []] else [])
           \<and> (r \<noteq> 0 \<longrightarrow> b) \<and> (r = 0 \<or> r = 1)"
proof -
  obtain r0 w0 where k0: "wakeup w = (r0, w0)" by (cases "wakeup w") auto
  obtain r2 w2 where k2: "sendCommand 0x1b 0x00 0x0000 [] w0 = (r2, w2)"
    by (cases "sendCommand 0x1b 0x00 0x0000 [] w0") auto
  obtain r3 resp w3 where k3: "receiveResponse (replicate 32 0) 32 (delay 23 w2) = (r3, resp, w3)"
    by (cases "receiveResponse (replicate 32 0) 32 (delay 23 w2)") auto
  note f = exchange_frames [OF k0 k2 k3]
  note u = random32_unfold [OF k0 k2 k3, of d]
  show ?thesis
  proof (rule one_frame_cases)
    show "frames_sent w1 = frames_sent w
        \<or> frames_sent w1 = frames_sent w @ [command_frame 0x1b 0x00 0x0000 []]"
      using assms u f by (simp split: if_splits)
    show "r \<noteq> 0 \<Longrightarrow> frames_sent w1 = frames_sent w @ [command_frame 0x1b 0x00 0x0000 []]"
      using assms u f by (simp split: if_splits)
    show "r = 0 \<or> r = 1"
      using assms u by (simp split: if_splits)
  qed
qed

lemma challenge_unfold:
  assumes k0: "wakeup w = (r0, w0)"
    and k2: "sendCommand 0x16 0x03 0x0000 (take 32 message) w0 = (r2, w2)"
    and k3: "receiveResponse [0] 1 (delay 7 w2) = (r3, st, w3)"
  shows "challenge message w =
      (if r0 = 0 then (0, w0) else if r2 = 0 then (0, w2) else if r3 = 0 then (0, w3)
       else (if st ! 0 \<noteq> 0 then 0 else 1, snd (idle (delay 1 w3))))"
  using k0 k2 k3 by (simp add: challenge_def Let_def)

lemma challenge_frames:
  assumes "challenge message w = (r, w1)"
  shows "\<exists>b. frames_sent w1
             = frames_sent w @ (if b then [command_frame 0x16 0x03 0x0000 (take 32 message)] else [])
           \<and> (r \<noteq> 0 \<longrightarrow> b) \<and> (r = 0 \<or> r = 1)"
proof -
  obtain r0 w0 where k0: "wakeup w = (r0, w0)" by (cases "wakeup w") auto
  obtain r2 w2 where k2: "sendCommand 0x16 0x03 0x0000 (take 32 message) w0 = (r2, w2)"
    by (cases "sendCommand 0x16 0x03 0x0000 (take 32 message) w0") auto
  obtain r3 st w3 where k3: "receiveResponse [0] 1 (delay 7 w2) = (r3, st, w3)"
    by (cases "receiveResponse [0] 1 (delay 7 w2)") auto
  note f = exchange_frames [OF k0 k2 k3]
  note u = challenge_unfold [OF k0 k2 k3]
  show ?thesis
  proof (rule one_frame_cases)
    show "frames_sent w1 = frames_sent w
        \<or> frames_sent w1 = frames_sent w @ [command_frame 0x16 0x03 0x0000 (take 32 message)]"
      using assms u f by (simp split: if_splits)
    show "r \<noteq> 0 \<Longrightarrow>
        frames_sent w1 = frames_sent w @ [command_frame 0x16 0x03 0x0000 (take 32 message)]"
      using assms u f by (simp split: if_splits)
    show "r = 0 \<or> r = 1"
      using assms u by (simp split: if_splits)
  qed
qed

lemma sign_unfold:
  assumes k0: "wakeup w = (r0, w0)"
    and k2: "sendCommand 0x41 0x80 (word_of_int slot) [] w0 = (r2, w2)"
    and k3: "receiveResponse signature 64 (delay 50 w2) = (r3, sg, w3)"
  shows "sign slot signature w =
      (if r0 = 0 then (0, signature, w0) else if r2 = 0 then (0, signature, w2)
       else if r3 = 0 then (0, sg, w3)
       else (1, sg, snd (idle (delay 1 w3))))"
  using k0 k2 k3 by (simp add: sign_def Let_def)

lemma sign_frames:
  assumes "sign slot signature w = (r, sig1, w1)"
  shows "\<exists>b. frames_sent w1
             = frames_sent w @ (if b then [command_frame 0x41 0x80 (word_of_int slot) []] else [])
           \<and> (r \<noteq> 0 \<longrightarrow> b) \<and> (r = 0 \<or> r = 1)"
    and "r = 0 \<Longrightarrow> sig1 = signature"
    and "r \<noteq> 0 \<Longrightarrow> \<exists>wx wy. receiveResponse signature 64 wx = (1, sig1, wy)"
proof -
  obtain r0 w0 where k0: "wakeup w = (r0, w0)" by (cases "wakeup w") auto
  obtain r2 w2 where k2: "sendCommand 0x41 0x80 (word_of_int slot) [] w0 = (r2, w2)"
    by (cases "sendCommand 0x41 0x80 (word_of_int slot) [] w0") auto
  obtain r3 sg w3 where k3: "receiveResponse signature 64 (delay 50 w2) = (r3, sg, w3)"
    by (cases "receiveResponse signature 64 (delay 50 w2)") auto
  note f = exchange_frames [OF k0 k2 k3]
  note u = sign_unfold [OF k0 k2 k3]
  note b3 = receiveResponse_result [OF k3]
  show "\<exists>b. frames_sent w1
             = frames_sent w @ (if b then [command_frame 0x41 0x80 (word_of_int slot) []] else [])
           \<and> (r \<noteq> 0 \<longrightarrow> b) \<and> (r = 0 \<or> r = 1)"
  proof (rule one_frame_cases)
    show "frames_sent w1 = frames_sent w
        \<or> frames_sent w1 = frames_sent w @ [command_frame 0x41 0x80 (word_of_int slot) []]"
      using assms u f by (simp split: if_splits)
    show "r \<noteq> 0 \<Longrightarrow>
        frames_sent w1 = frames_sent w @ [command_frame 0x41 0x80 (word_of_int slot) []]"
      using assms u f by (simp split: if_splits)
    show "r = 0 \<or> r = 1"
      using assms u by (simp split: if_splits)
  qed
  show "r = 0 \<Longrightarrow> sig1 = signature"
    using assms u b3(2) by (simp split: if_splits)
  show "r \<noteq> 0 \<Longrightarrow> \<exists>wx wy. receiveResponse signature 64 wx = (1, sig1, wy)"
  proof -
    assume "r \<noteq> 0"
    with assms u have "r3 \<noteq> 0" "sig1 = sg" by (simp_all split: if_splits)
    with b3(1) k3 have "receiveResponse signature 64 (delay 50 w2) = (1, sig1, w3)" by simp
    then show ?thesis by blast
  qed
qed

lemma receiveResponse_payload:
  assumes "receiveResponse response len w = (r, response1, w1)" and "r \<noteq> 0"
  shows "response1
     = take len (drop 1 (fst (requestLoop 20 (len + 3) (fst (uninitialised (len + 3) w))
                                 (snd (uninitialised (len + 3) w)))))
         @ drop len response"
proof -
  obtain buffer0 w0 where u: "uninitialised (len + 3) w = (buffer0, w0)"
    by (cases "uninitialised (len + 3) w") auto
  obtain frame w2 where q: "requestLoop 20 (len + 3) buffer0 w0 = (frame, w2)"
    by (cases "requestLoop 20 (len + 3) buffer0 w0") auto
  from assms u q show ?thesis
    by (auto simp add: receiveResponse_def Let_def memcpy_def split: if_splits)
qed

lemma sign_payload:
  assumes "sign slot signature w = (r, sig1, w1)" and "r \<noteq> 0"
  shows "sig1
     = take 64 (drop 1 (fst (requestLoop 20 67
          (fst (uninitialised 67
             (delay 50 (snd (sendCommand 0x41 0x80 (word_of_int slot) [] (snd (wakeup w)))))))
          (snd (uninitialised 67
             (delay 50 (snd (sendCommand 0x41 0x80 (word_of_int slot) [] (snd (wakeup w))))))))))
         @ drop 64 signature"
proof -
  obtain r0 w0 where k0: "wakeup w = (r0, w0)" by (cases "wakeup w") auto
  obtain r2 w2 where k2: "sendCommand 0x41 0x80 (word_of_int slot) [] w0 = (r2, w2)"
    by (cases "sendCommand 0x41 0x80 (word_of_int slot) [] w0") auto
  obtain r3 sg w3 where k3: "receiveResponse signature 64 (delay 50 w2) = (r3, sg, w3)"
    by (cases "receiveResponse signature 64 (delay 50 w2)") auto
  note u = sign_unfold [OF k0 k2 k3]
  from assms u have nz: "r3 \<noteq> 0" and e: "sig1 = sg" by (simp_all split: if_splits)
  from receiveResponse_payload [OF k3 nz] show ?thesis
    unfolding e using k0 k2 by simp
qed

lemma random32_ok:
  assumes "length r = 32"
  shows "random d 32
       \<lparr>device_address = a, trace = t, acks = a1 # 0 # a3 # ks,
          reads = response_frame [0x11] # response_frame r # rs, junk = j\<rparr>
     = (1, memcpy_at d 0 r 32,
        \<lparr>device_address = a,
           trace = t @ [BeginTransmission 0x00, EndTransmission, DelayMicroseconds 800,
                        RequestFrom a 4, SendTo a (command_frame 0x1b 0x00 0x0000 []),
                        Delay 23, RequestFrom a 35, Delay 1,
                        BeginTransmission a, WireWrite 0x02, EndTransmission],
           acks = ks, reads = rs, junk = tl (tl j)\<rparr>)"
proof -
  let ?w0 = "\<lparr>device_address = a,
           trace = t @ [BeginTransmission 0x00, EndTransmission, DelayMicroseconds 800,
                        RequestFrom a 4],
           acks = 0 # a3 # ks, reads = response_frame r # rs, junk = tl j\<rparr>"
  have loop: "random_loop d 0 32 ?w0 =
      (1, memcpy_at d 0 r 32,
       \<lparr>device_address = a,
           trace = t @ [BeginTransmission 0x00, EndTransmission, DelayMicroseconds 800,
                        RequestFrom a 4, SendTo a (command_frame 0x1b 0x00 0x0000 []),
                        Delay 23, RequestFrom a 35],
           acks = a3 # ks, reads = rs, junk = tl (tl j)\<rparr>)"
    using assms
    by (subst random_loop.simps) (simp add: stub_run random_loop_zero)
  show ?thesis
    by (simp add: random_def wakeup_frame loop delay_literal idle_literal Let_def)
qed

lemma ecSign_scripted:
  assumes "length message = 32" and "length S = 64" and "length R = 32"
    and rd: "reads w = response_frame [0x11] # response_frame R
                     # response_frame [0x11] # response_frame [0x00]
                     # response_frame [0x11] # response_frame S # rs"
    and ak: "acks w = a1 # 0 # a3 # a4 # 0 # a6 # a7 # 0 # a9 # ks"
  shows "fst (ecSign slot message signature w) = 1"
    and "fst (snd (ecSign slot message signature w)) = S @ drop 64 signature"
    and "reads (snd (snd (ecSign slot message signature w))) = rs"
    and "trace (snd (snd (ecSign slot message signature w)))
       = trace w
         @ [BeginTransmission 0x00, EndTransmission, DelayMicroseconds 800,
            RequestFrom (device_address w) 4,
            SendTo (device_address w) (command_frame 0x1b 0x00 0x0000 []),
            Delay 23, RequestFrom (device_address w) 35, Delay 1,
            BeginTransmission (device_address w), WireWrite 0x02, EndTransmission,
            BeginTransmission 0x00, EndTransmission, DelayMicroseconds 800,
            RequestFrom (device_address w) 4,
            SendTo (device_address w) (command_frame 0x16 0x03 0x0000 message),
            Delay 7, RequestFrom (device_address w) 4, Delay 1,
            BeginTransmission (device_address w), WireWrite 0x02, EndTransmission,
            BeginTransmission 0x00, EndTransmission, DelayMicroseconds 800,
            RequestFrom (device_address w) 4,
            SendTo (device_address w) (command_frame 0x41 0x80 (word_of_int slot) []),
            Delay 50, RequestFrom (device_address w) 67, Delay 1,
            BeginTransmission (device_address w), WireWrite 0x02, EndTransmission]"
proof -
  obtain a t k r j where w: "w = \<lparr>device_address = a, trace = t, acks = k, reads = r, junk = j\<rparr>"
    by (cases w) auto
  have m: "take 32 message = message" using assms(1) by simp
  have run: "ecSign slot message signature w
      = (1, S @ drop 64 signature,
         \<lparr>device_address = a,
            trace = t
         @ [BeginTransmission 0x00, EndTransmission, DelayMicroseconds 800,
            RequestFrom a 4, SendTo a (command_frame 0x1b 0x00 0x0000 []),
            Delay 23, RequestFrom a 35, Delay 1,
            BeginTransmission a, WireWrite 0x02, EndTransmission,
            BeginTransmission 0x00, EndTransmission, DelayMicroseconds 800,
            RequestFrom a 4, SendTo a (command_frame 0x16 0x03 0x0000 message),
            Delay 7, RequestFrom a 4, Delay 1,
            BeginTransmission a, WireWrite 0x02, EndTransmission,
            BeginTransmission 0x00, EndTransmission, DelayMicroseconds 800,
            RequestFrom a 4, SendTo a (command_frame 0x41 0x80 (word_of_int slot) []),
            Delay 50, RequestFrom a 67, Delay 1,
            BeginTransmission a, WireWrite 0x02, EndTransmission],
            acks = ks, reads = rs, junk = tl (tl (tl (tl (tl (tl j)))))\<rparr>)"
    using rd ak assms(2,3) unfolding w
    by (simp add: ecSign_def random32_ok challenge_def sign_def stub_run m)
  show "fst (ecSign slot message signature w) = 1" by (subst run) simp
  show "fst (snd (ecSign slot message signature w)) = S @ drop 64 signature"
    by (subst run) simp
  show "reads (snd (snd (ecSign slot message signature w))) = rs" by (subst run) simp
  show "trace (snd (snd (ecSign slot message signature w)))
       = trace w
         @ [BeginTransmission 0x00, EndTransmission, DelayMicroseconds 800,
            RequestFrom (device_address w) 4,
            SendTo (device_address w) (command_frame 0x1b 0x00 0x0000 []),
            Delay 23, RequestFrom (device_address w) 35, Delay 1,
            BeginTransmission (device_address w), WireWrite 0x02, EndTransmission,
            BeginTransmission 0x00, EndTransmission, DelayMicroseconds 800,
            RequestFrom (device_address w) 4,
            SendTo (device_address w) (command_frame 0x16 0x03 0x0000 message),
            Delay 7, RequestFrom (device_address w) 4, Delay 1,
            BeginTransmission (device_address w), WireWrite 0x02, EndTransmission,
            BeginTransmission 0x00, EndTransmission, DelayMicroseconds 800,
            RequestFrom (device_address w) 4,
            SendTo (device_address w) (command_frame 0x41 0x80 (word_of_int slot) []),
            Delay 50, RequestFrom (device_address w) 67, Delay 1,
            BeginTransmission (device_address w), WireWrite 0x02, EndTransmission]"
    by (subst run) (simp add: w)
qed

text \<open>
  C7. For every slot and 32-byte message, \<open>ecSign\<close> runs \<open>random\<close> for 32 bytes, then
  \<open>challenge\<close> with the message, then \<open>sign\<close> for the slot. When one of them fails it
  returns 0, the signature buffer is unchanged and the world is left as the failing step
  left it: the later steps are not attempted. The command frames sent are a prefix of:
  the random command, the nonce command carrying the message, the sign command for the
  slot; all three when it returns 1. On success the signature returned is bytes 1 to 64
  of the response buffer polled from the bus after the sign command was sent. In
  particular, against a device that answers the wake-ups, answers the random command
  with 32 bytes \<open>R\<close>, accepts the nonce and answers the sign command with the 64 bytes
  \<open>S\<close>, \<open>ecSign\<close> returns 1 and exactly \<open>S\<close>, after the three exchanges in order
  (whatever the statuses of the wake and idle transmissions).
\<close>

theorem ecSign_sequence:
  assumes "length message = 32"
  shows "ecSign slot message signature w =
      (let rnd = random (replicate 32 0) 32 w;
           w1 = snd (snd rnd);
           ch = challenge message w1;
           w2 = snd ch;
           sg = sign slot signature w2
       in if fst rnd = 0 then (0, signature, w1)
          else if fst ch = 0 then (0, signature, w2)
          else if fst sg = 0 then (0, signature, snd (snd sg))
          else (1, fst (snd sg), snd (snd sg)))
   \<and> (\<exists>n. n \<le> 3
        \<and> frames_sent (snd (snd (ecSign slot message signature w)))
            = frames_sent w
                @ take n [command_frame 0x1b 0x00 0x0000 [],
                          command_frame 0x16 0x03 0x0000 message,
                          command_frame 0x41 0x80 (word_of_int slot) []]
        \<and> (fst (ecSign slot message signature w) = 1 \<longrightarrow> n = 3))
   \<and> (fst (ecSign slot message signature w) = 1 \<longrightarrow>
        fst (snd (ecSign slot message signature w))
          = (let w1 = snd (snd (random (replicate 32 0) 32 w));
                 w2 = snd (challenge message w1);
                 w3 = delay 50 (snd (sendCommand 0x41 0x80 (word_of_int slot) []
                                       (snd (wakeup w2))));
                 responseBuffer = fst (requestLoop 20 67 (fst (uninitialised 67 w3))
                                         (snd (uninitialised 67 w3)))
             in take 64 (drop 1 responseBuffer) @ drop 64 signature))
   \<and> (fst (ecSign slot message signature w) = 0 \<or> fst (ecSign slot message signature w) = 1)
   \<and> (length S = 64 \<and> length R = 32
        \<and> reads w = response_frame [0x11] # response_frame R
                      # response_frame [0x11] # response_frame [0x00]
                      # response_frame [0x11] # response_frame S # rs
        \<and> acks w = a1 # 0 # a3 # a4 # 0 # a6 # a7 # 0 # a9 # ks
        \<longrightarrow>
          fst (ecSign slot message signature w) = 1
        \<and> fst (snd (ecSign slot message signature w)) = S @ drop 64 signature
        \<and> reads (snd (snd (ecSign slot message signature w))) = rs
        \<and> trace (snd (snd (ecSign slot message signature w)))
            = trace w
              @ [BeginTransmission 0x00, EndTransmission, DelayMicroseconds 800,
                 RequestFrom (device_address w) 4,
                 SendTo (device_address w) (command_frame 0x1b 0x00 0x0000 []),
                 Delay 23, RequestFrom (device_address w) 35, Delay 1,
                 BeginTransmission (device_address w), WireWrite 0x02, EndTransmission,
                 BeginTransmission 0x00, EndTransmission, DelayMicroseconds 800,
                 RequestFrom (device_address w) 4,
                 SendTo (device_address w) (command_frame 0x16 0x03 0x0000 message),
                 Delay 7, RequestFrom (device_address w) 4, Delay 1,
                 BeginTransmission (device_address w), WireWrite 0x02, EndTransmission,
                 BeginTransmission 0x00, EndTransmission, DelayMicroseconds 800,
                 RequestFrom (device_address w) 4,
                 SendTo (device_address w) (command_frame 0x41 0x80 (word_of_int slot) []),
                 Delay 50, RequestFrom (device_address w) 67, Delay 1,
                 BeginTransmission (device_address w), WireWrite 0x02, EndTransmission])"
proof -
  obtain r1 rand w1 where k1: "random (replicate 32 0) 32 w = (r1, rand, w1)"
    by (cases "random (replicate 32 0) 32 w") auto
  obtain r2 w2 where k2: "challenge message w1 = (r2, w2)"
    by (cases "challenge message w1") auto
  obtain r3 sg w3 where k3: "sign slot signature w2 = (r3, sg, w3)"
    by (cases "sign slot signature w2") auto
  have m: "take 32 message = message" using assms by simp
  from random32_frames [OF k1] obtain b1 where
    f1: "frames_sent w1 = frames_sent w @ (if b1 then [command_frame 0x1b 0x00 0x0000 []] else [])"
      "r1 \<noteq> 0 \<longrightarrow> b1" "r1 = 0 \<or> r1 = 1"
    by blast
  from challenge_frames [OF k2] obtain b2 where
    f2: "frames_sent w2
           = frames_sent w1 @ (if b2 then [command_frame 0x16 0x03 0x0000 message] else [])"
      "r2 \<noteq> 0 \<longrightarrow> b2" "r2 = 0 \<or> r2 = 1"
    unfolding m by blast
  from sign_frames(1) [OF k3] obtain b3 where
    f3: "frames_sent w3
           = frames_sent w2 @ (if b3 then [command_frame 0x41 0x80 (word_of_int slot) []] else [])"
      "r3 \<noteq> 0 \<longrightarrow> b3" "r3 = 0 \<or> r3 = 1"
    by blast
  note s0 = sign_frames(2) [OF k3]
  note s1 = sign_frames(3) [OF k3]
  have e: "ecSign slot message signature w =
      (if r1 = 0 then (0, signature, w1) else if r2 = 0 then (0, signature, w2)
       else if r3 = 0 then (0, signature, w3) else (1, sg, w3))"
    using k1 k2 k3 s0 by (simp add: ecSign_def)
  have c1: "ecSign slot message signature w =
      (let rnd = random (replicate 32 0) 32 w;
           w1 = snd (snd rnd);
           ch = challenge message w1;
           w2 = snd ch;
           sg = sign slot signature w2
       in if fst rnd = 0 then (0, signature, w1)
          else if fst ch = 0 then (0, signature, w2)
          else if fst sg = 0 then (0, signature, snd (snd sg))
          else (1, fst (snd sg), snd (snd sg)))"
    unfolding e using k1 k2 k3 by (simp add: Let_def)
  have c2: "\<exists>n. n \<le> 3
        \<and> frames_sent (snd (snd (ecSign slot message signature w)))
            = frames_sent w
                @ take n [command_frame 0x1b 0x00 0x0000 [],
                          command_frame 0x16 0x03 0x0000 message,
                          command_frame 0x41 0x80 (word_of_int slot) []]
        \<and> (fst (ecSign slot message signature w) = 1 \<longrightarrow> n = 3)"
  proof (cases "r1 = 0")
    case True
    then show ?thesis
      unfolding e using f1(1) by (intro exI [of _ "if b1 then 1 else 0"]) simp
  next
    case n1: False
    with f1 have g1: "frames_sent w1 = frames_sent w @ [command_frame 0x1b 0x00 0x0000 []]"
      by simp
    show ?thesis
    proof (cases "r2 = 0")
      case True
      then show ?thesis
        unfolding e using n1 f2(1) g1 by (intro exI [of _ "if b2 then 2 else 1"]) simp
    next
      case n2: False
      with f2 g1 have g2: "frames_sent w2 = frames_sent w @ [command_frame 0x1b 0x00 0x0000 [],
          command_frame 0x16 0x03 0x0000 message]"
        by simp
      show ?thesis
      proof (cases "r3 = 0")
        case True
        then show ?thesis
          unfolding e using n1 n2 f3(1) g2 by (intro exI [of _ "if b3 then 3 else 2"]) simp
      next
        case False
        with f3 g2 show ?thesis
          unfolding e using n1 n2 by (intro exI [of _ 3]) simp
      qed
    qed
  qed
  have w12: "snd (snd (random (replicate 32 0) 32 w)) = w1" "snd (challenge message w1) = w2"
    using k1 k2 by simp_all
  have c3: "fst (ecSign slot message signature w) = 1 \<longrightarrow>
        fst (snd (ecSign slot message signature w))
          = (let w1 = snd (snd (random (replicate 32 0) 32 w));
                 w2 = snd (challenge message w1);
                 w3 = delay 50 (snd (sendCommand 0x41 0x80 (word_of_int slot) []
                                       (snd (wakeup w2))));
                 responseBuffer = fst (requestLoop 20 67 (fst (uninitialised 67 w3))
                                         (snd (uninitialised 67 w3)))
             in take 64 (drop 1 responseBuffer) @ drop 64 signature)"
  proof
    assume "fst (ecSign slot message signature w) = 1"
    then have nz: "r3 \<noteq> 0" and sg: "fst (snd (ecSign slot message signature w)) = sg"
      unfolding e by (simp_all split: if_splits)
    from sign_payload [OF k3 nz] show "fst (snd (ecSign slot message signature w))
          = (let w1 = snd (snd (random (replicate 32 0) 32 w));
                 w2 = snd (challenge message w1);
                 w3 = delay 50 (snd (sendCommand 0x41 0x80 (word_of_int slot) []
                                       (snd (wakeup w2))));
                 responseBuffer = fst (requestLoop 20 67 (fst (uninitialised 67 w3))
                                         (snd (uninitialised 67 w3)))
             in take 64 (drop 1 responseBuffer) @ drop 64 signature)"
      unfolding sg Let_def w12 by simp
  qed
  have c4: "fst (ecSign slot message signature w) = 0 \<or> fst (ecSign slot message signature w) = 1"
    unfolding e by simp
  have c5: "(length S = 64 \<and> length R = 32
        \<and> reads w = response_frame [0x11] # response_frame R
                      # response_frame [0x11] # response_frame [0x00]
                      # response_frame [0x11] # response_frame S # rs
        \<and> acks w = a1 # 0 # a3 # a4 # 0 # a6 # a7 # 0 # a9 # ks
        \<longrightarrow>
          fst (ecSign slot message signature w) = 1
        \<and> fst (snd (ecSign slot message signature w)) = S @ drop 64 signature
        \<and> reads (snd (snd (ecSign slot message signature w))) = rs
        \<and> trace (snd (snd (ecSign slot message signature w)))
            = trace w
              @ [BeginTransmission 0x00, EndTransmission, DelayMicroseconds 800,
                 RequestFrom (device_address w) 4,
                 SendTo (device_address w) (command_frame 0x1b 0x00 0x0000 []),
                 Delay 23, RequestFrom (device_address w) 35, Delay 1,
                 BeginTransmission (device_address w), WireWrite 0x02, EndTransmission,
                 BeginTransmission 0x00, EndTransmission, DelayMicroseconds 800,
                 RequestFrom (device_address w) 4,
                 SendTo (device_address w) (command_frame 0x16 0x03 0x0000 message),
                 Delay 7, RequestFrom (device_address w) 4, Delay 1,
                 BeginTransmission (device_address w), WireWrite 0x02, EndTransmission,
                 BeginTransmission 0x00, EndTransmission, DelayMicroseconds 800,
                 RequestFrom (device_address w) 4,
                 SendTo (device_address w) (command_frame 0x41 0x80 (word_of_int slot) []),
                 Delay 50, RequestFrom (device_address w) 67, Delay 1,
                 BeginTransmission (device_address w), WireWrite 0x02, EndTransmission])"
    using ecSign_scripted [OF assms, of S R w rs a1 a3 a4 a6 a7 a9 ks slot signature]
    by blast
  from c1 c2 c3 c4 c5 show ?thesis by blast
qed

text \<open>
  C7, scenario: a device that answers the random command with 32 bytes, accepts the
  nonce, and answers the sign command for slot 0 with a fixed 64-byte signature; \<open>ecSign\<close>
  returns exactly those 64 bytes, after the three commands in order.
\<close>

theorem ecSign_sequence_witness:
  "length (replicate 32 (0xAB::byte)) = 32
   \<and> fst (ecSign 0 (replicate 32 0xAB) (replicate 64 0x00)
        \<lparr>device_address = 0x60, trace = [], acks = [0, 0, 0, 0, 0, 0, 0, 0, 0],
           reads = [[0x04, 0x11, 0x33, 0x43], response_frame (replicate 32 0x77),
                    [0x04, 0x11, 0x33, 0x43], [0x04, 0x00, 0x03, 0x40],
                    [0x04, 0x11, 0x33, 0x43],
                    response_frame (replicate 32 0x11 @ replicate 32 0x22)],
           junk = []\<rparr>) = 1
   \<and> fst (snd (ecSign 0 (replicate 32 0xAB) (replicate 64 0x00)
        \<lparr>device_address = 0x60, trace = [], acks = [0, 0, 0, 0, 0, 0, 0, 0, 0],
           reads = [[0x04, 0x11, 0x33, 0x43], response_frame (replicate 32 0x77),
                    [0x04, 0x11, 0x33, 0x43], [0x04, 0x00, 0x03, 0x40],
                    [0x04, 0x11, 0x33, 0x43],
                    response_frame (replicate 32 0x11 @ replicate 32 0x22)],
           junk = []\<rparr>)) = replicate 32 0x11 @ replicate 32 0x22
   \<and> frames_sent (snd (snd (ecSign 0 (replicate 32 0xAB) (replicate 64 0x00)
        \<lparr>device_address = 0x60, trace = [], acks = [0, 0, 0, 0, 0, 0, 0, 0, 0],
           reads = [[0x04, 0x11, 0x33, 0x43], response_frame (replicate 32 0x77),
                    [0x04, 0x11, 0x33, 0x43], [0x04, 0x00, 0x03, 0x40],
                    [0x04, 0x11, 0x33, 0x43],
                    response_frame (replicate 32 0x11 @ replicate 32 0x22)],
           junk = []\<rparr>)))
       = [[0x03, 0x07, 0x1B, 0x00, 0x00, 0x00, 0x24, 0xCD],
          command_frame 0x16 0x03 0x0000 (replicate 32 0xAB),
          [0x03, 0x07, 0x41, 0x80, 0x00, 0x00, 0x28, 0x05]]"
proof -
  let ?w = "\<lparr>device_address = 0x60, trace = [], acks = [0, 0, 0, 0, 0, 0, 0, 0, 0],
           reads = [[0x04, 0x11, 0x33, 0x43], response_frame (replicate 32 0x77),
                    [0x04, 0x11, 0x33, 0x43], [0x04, 0x00, 0x03, 0x40],
                    [0x04, 0x11, 0x33, 0x43],
                    response_frame (replicate 32 0x11 @ replicate 32 0x22)],
           junk = []\<rparr>"
  let ?S = "replicate 32 (0x11::byte) @ replicate 32 0x22"
  have len: "length (replicate 32 (0xAB::byte)) = 32" by simp
  have device: "length ?S = 64 \<and> length (replicate 32 (0x77::byte)) = 32
      \<and> reads ?w = response_frame [0x11] # response_frame (replicate 32 0x77)
                      # response_frame [0x11] # response_frame [0x00]
                      # response_frame [0x11] # response_frame ?S # []
      \<and> acks ?w = 0 # 0 # 0 # 0 # 0 # 0 # 0 # 0 # 0 # []"
    by (simp add: wake_response_bytes ok_response_bytes)
  note sequence = ecSign_sequence [OF len, where slot = 0 and signature = "replicate 64 0x00"
      and w = ?w and S = ?S and R = "replicate 32 0x77" and rs = "[]" and ks = "[]"
      and ?a1.0 = 0 and ?a3.0 = 0 and ?a4.0 = 0 and ?a6.0 = 0 and ?a7.0 = 0 and ?a9.0 = 0]
  from sequence device
  have r1: "fst (ecSign 0 (replicate 32 0xAB) (replicate 64 0x00) ?w) = 1"
    and r2': "fst (snd (ecSign 0 (replicate 32 0xAB) (replicate 64 0x00) ?w))
      = ?S @ drop 64 (replicate 64 0x00)"
    by blast+
  from r2' have r2: "fst (snd (ecSign 0 (replicate 32 0xAB) (replicate 64 0x00) ?w)) = ?S"
    by simp
  have f0: "frames_sent ?w = []" by (simp add: frames_sent_def)
  from sequence obtain n where
    n: "frames_sent (snd (snd (ecSign 0 (replicate 32 0xAB) (replicate 64 0x00) ?w)))
          = frames_sent ?w
              @ take n [command_frame 0x1b 0x00 0x0000 [],
                        command_frame 0x16 0x03 0x0000 (replicate 32 0xAB),
                        command_frame 0x41 0x80 (word_of_int 0) []]"
      "fst (ecSign 0 (replicate 32 0xAB) (replicate 64 0x00) ?w) = 1 \<longrightarrow> n = 3"
    by blast
  from n(2) r1 have n3: "n = 3" by simp
  have r3: "frames_sent (snd (snd (ecSign 0 (replicate 32 0xAB) (replicate 64 0x00) ?w)))
       = [[0x03, 0x07, 0x1B, 0x00, 0x00, 0x00, 0x24, 0xCD],
          command_frame 0x16 0x03 0x0000 (replicate 32 0xAB),
          [0x03, 0x07, 0x41, 0x80, 0x00, 0x00, 0x28, 0x05]]"
    unfolding n(1) n3 f0 by (simp add: sign_frame_bytes)
  from len r1 r2 r3 show ?thesis by blast
qed

subsection \<open>Writing the configuration zone\<close>

lemma write_zone4_unfold:
  assumes k0: "wakeup w = (r0, w0)"
    and k2: "sendCommand 0x12 (word_of_int zone) (word_of_int address) (take 4 buffer) w0 = (r2, w2)"
    and k3: "receiveResponse [0] 1 (delay 26 w2) = (r3, st, w3)"
  shows "write_zone zone address buffer 4 w =
      (if r0 = 0 then (0, w0) else if r2 = 0 then (0, w2) else if r3 = 0 then (0, w3)
       else (if st ! 0 \<noteq> 0 then 0 else 1, snd (idle (delay 1 w3))))"
  using k0 k2 k3 by (simp add: write_zone_def Let_def)

lemma write_zone4_frames:
  assumes "write_zone zone address buffer 4 w = (r, w1)"
  shows "\<exists>b. frames_sent w1
             = frames_sent w
                 @ (if b then [command_frame 0x12 (word_of_int zone) (word_of_int address)
                                 (take 4 buffer)] else [])
           \<and> (r \<noteq> 0 \<longrightarrow> b) \<and> (r = 0 \<or> r = 1)"
proof -
  let ?f = "command_frame 0x12 (word_of_int zone) (word_of_int address) (take 4 buffer)"
  obtain r0 w0 where k0: "wakeup w = (r0, w0)" by (cases "wakeup w") auto
  obtain r2 w2 where
    k2: "sendCommand 0x12 (word_of_int zone) (word_of_int address) (take 4 buffer) w0 = (r2, w2)"
    by (cases "sendCommand 0x12 (word_of_int zone) (word_of_int address) (take 4 buffer) w0") auto
  obtain r3 st w3 where k3: "receiveResponse [0] 1 (delay 26 w2) = (r3, st, w3)"
    by (cases "receiveResponse [0] 1 (delay 26 w2)") auto
  note f = exchange_frames [OF k0 k2 k3]
  note u = write_zone4_unfold [OF k0 k2 k3]
  show ?thesis
  proof (rule one_frame_cases)
    show "frames_sent w1 = frames_sent w \<or> frames_sent w1 = frames_sent w @ [?f]"
      using assms u f by (simp split: if_splits)
    show "r \<noteq> 0 \<Longrightarrow> frames_sent w1 = frames_sent w @ [?f]"
      using assms u f by (simp split: if_splits)
    show "r = 0 \<or> r = 1"
      using assms u by (simp split: if_splits)
  qed
qed

lemma writeConfiguration_loop_frames:
  "k \<le> 32 \<Longrightarrow>
   \<exists>n. n \<le> length (filter (\<lambda>a. a \<noteq> 21) [k..<32])
     \<and> frames_sent (snd (writeConfiguration_loop data (4 * k) w))
         = frames_sent w
             @ map (\<lambda>a. command_frame 0x12 0x00 (of_nat a) (take 4 (drop (4 * a) data)))
                 (take n (filter (\<lambda>a. a \<noteq> 21) [k..<32]))
     \<and> (fst (writeConfiguration_loop data (4 * k) w) = 1
          \<longrightarrow> n = length (filter (\<lambda>a. a \<noteq> 21) [k..<32]))
     \<and> (fst (writeConfiguration_loop data (4 * k) w) = 0
          \<or> fst (writeConfiguration_loop data (4 * k) w) = 1)"
proof (induction "32 - k" arbitrary: k w)
  case 0
  then have k: "k = 32" by simp
  show ?case unfolding k by (subst (1 2 3 4) writeConfiguration_loop.simps) simp
next
  case (Suc m)
  then have lt: "k < 32" and m: "m = 32 - Suc k" and le: "Suc k \<le> 32" by simp_all
  let ?F = "\<lambda>a. command_frame 0x12 0x00 (of_nat a) (take 4 (drop (4 * a) data))"
  let ?ws = "\<lambda>k. filter (\<lambda>a. a \<noteq> 21) [k..<32]"
  have nxt: "4 * k + 4 = 4 * Suc k" by simp
  show ?case
  proof (cases "k = 21")
    case True
    have step: "writeConfiguration_loop data (4 * k) w = writeConfiguration_loop data (4 * Suc k) w"
      unfolding True by (subst writeConfiguration_loop.simps) simp
    have ws: "?ws k = ?ws (Suc k)"
      using lt True by (simp add: upt_conv_Cons)
    from Suc.hyps(1) [OF m le, of w] show ?thesis
      unfolding step ws .
  next
    case False
    obtain r w1 where wr: "write_zone 0 (int k) (drop (4 * k) data) 4 w = (r, w1)"
      by (cases "write_zone 0 (int k) (drop (4 * k) data) 4 w") auto
    have step: "writeConfiguration_loop data (4 * k) w =
        (if r = 0 then (0, w1) else writeConfiguration_loop data (4 * Suc k) w1)"
      using lt False wr by (subst writeConfiguration_loop.simps) (simp add: nxt)
    have ws: "?ws k = k # ?ws (Suc k)"
      using lt False by (simp add: upt_conv_Cons)
    have e: "word_of_int 0 = (0::byte)" "word_of_int (int k) = (of_nat k :: uint16_t)"
      by simp_all
    have "\<exists>b. frames_sent w1 = frames_sent w @ (if b then [?F k] else [])
            \<and> (r \<noteq> 0 \<longrightarrow> b) \<and> (r = 0 \<or> r = 1)"
      using write_zone4_frames [OF wr] unfolding e .
    then obtain b where
      b: "frames_sent w1 = frames_sent w @ (if b then [?F k] else [])"
        "r \<noteq> 0 \<longrightarrow> b" "r = 0 \<or> r = 1"
      by blast
    show ?thesis
    proof (cases "r = 0")
      case True
      show ?thesis
        unfolding step ws using True b(1)
        by (intro exI [of _ "if b then 1 else 0"]) simp
    next
      case False
      with b have b': "frames_sent w1 = frames_sent w @ [?F k]" by simp
      from Suc.hyps(1) [OF m le, of w1] obtain n where
        n: "n \<le> length (?ws (Suc k))"
          "frames_sent (snd (writeConfiguration_loop data (4 * Suc k) w1))
             = frames_sent w1 @ map ?F (take n (?ws (Suc k)))"
          "fst (writeConfiguration_loop data (4 * Suc k) w1) = 1 \<longrightarrow> n = length (?ws (Suc k))"
          "fst (writeConfiguration_loop data (4 * Suc k) w1) = 0
             \<or> fst (writeConfiguration_loop data (4 * Suc k) w1) = 1"
        by blast
      show ?thesis
        unfolding step ws using False n b'
        by (intro exI [of _ "Suc n"]) simp
    qed
  qed
qed

lemma config_words: "filter (\<lambda>a. a \<noteq> 21) [4..<32] = [4..<21] @ [22..<32]"
  by (simp add: upt_conv_Cons)

lemma writeConfiguration_loop_words:
  "k \<le> 32 \<Longrightarrow>
   writeConfiguration_loop data (4 * k) w
     = write_words data (filter (\<lambda>a. a \<noteq> 21) [k..<32]) w"
proof (induction "32 - k" arbitrary: k w)
  case 0
  then have k: "k = 32" by simp
  show ?case unfolding k by (subst writeConfiguration_loop.simps) simp
next
  case (Suc m)
  then have lt: "k < 32" and m: "m = 32 - Suc k" and le: "Suc k \<le> 32" by simp_all
  have nxt: "4 * k + 4 = 4 * Suc k" by simp
  show ?case
  proof (cases "k = 21")
    case True
    have step: "writeConfiguration_loop data (4 * k) w = writeConfiguration_loop data (4 * Suc k) w"
      unfolding True by (subst writeConfiguration_loop.simps) simp
    have ws: "filter (\<lambda>a. a \<noteq> 21) [k..<32] = filter (\<lambda>a. a \<noteq> 21) [Suc k..<32]"
      using lt True by (simp add: upt_conv_Cons)
    show ?thesis
      unfolding step ws by (rule Suc.hyps(1) [OF m le])
  next
    case False
    have ws: "filter (\<lambda>a. a \<noteq> 21) [k..<32] = k # filter (\<lambda>a. a \<noteq> 21) [Suc k..<32]"
      using lt False by (simp add: upt_conv_Cons)
    obtain r w1 where wr: "write_zone 0 (int k) (drop (4 * k) data) 4 w = (r, w1)"
      by (cases "write_zone 0 (int k) (drop (4 * k) data) 4 w") auto
    have step: "writeConfiguration_loop data (4 * k) w =
        (if r = 0 then (0, w1) else writeConfiguration_loop data (4 * Suc k) w1)"
      using lt False wr by (subst writeConfiguration_loop.simps) (simp add: nxt)
    show ?thesis
      unfolding step ws using wr Suc.hyps(1) [OF m le, of w1] by simp
  qed
qed

text \<open>
  C5 (as amended). For every 128-byte buffer, whatever its contents, \<open>writeConfiguration\<close>
  writes the words 4, 5, ..., 20, 22, ..., 31 of the configuration zone in that order, 4
  bytes each, word \<open>a\<close> from the bytes at offsets \<open>4a\<close> to \<open>4a + 3\<close>, for as long as
  each write succeeds: the first write that fails ends the operation with 0 in the world
  that write left, the words after it are not written, and the result is 1 after the
  last word. The command frames sent are therefore the writes of an initial segment of
  those words, all 27 when the result is 1, and no write ever covers the offsets [0,16)
  or [84,88).
\<close>

theorem writeConfiguration_words:
  assumes "length data = 128"
  shows "writeConfiguration data w = write_words data ([4..<21] @ [22..<32]) w
   \<and> (\<exists>n fs. n \<le> 27
     \<and> fs = map (\<lambda>a. command_frame 0x12 0x00 (of_nat a) (take 4 (drop (4 * a) data)))
              (take n ([4..<21] @ [22..<32]))
     \<and> frames_sent (snd (writeConfiguration data w)) = frames_sent w @ fs
     \<and> (fst (writeConfiguration data w) = 1 \<longrightarrow> n = 27)
     \<and> (fst (writeConfiguration data w) = 0 \<or> fst (writeConfiguration data w) = 1))"
proof -
  let ?F = "\<lambda>a. command_frame 0x12 0x00 (of_nat a) (take 4 (drop (4 * a) data))"
  have l: "length ([4..<21] @ [22..<32]) = 27" by simp
  have s: "writeConfiguration data w = writeConfiguration_loop data (4 * 4) w"
    by (simp add: writeConfiguration_def)
  have four: "(4::nat) \<le> 32" by simp
  have c1: "writeConfiguration data w = write_words data ([4..<21] @ [22..<32]) w"
    unfolding s writeConfiguration_loop_words [OF four] config_words ..
  from writeConfiguration_loop_frames [OF four, of data w, folded s, unfolded config_words l]
  obtain n where n: "n \<le> 27"
    "frames_sent (snd (writeConfiguration data w))
       = frames_sent w @ map ?F (take n ([4..<21] @ [22..<32]))"
    "fst (writeConfiguration data w) = 1 \<longrightarrow> n = 27"
    "fst (writeConfiguration data w) = 0 \<or> fst (writeConfiguration data w) = 1"
    by blast
  have c2: "\<exists>n fs. n \<le> 27
     \<and> fs = map ?F (take n ([4..<21] @ [22..<32]))
     \<and> frames_sent (snd (writeConfiguration data w)) = frames_sent w @ fs
     \<and> (fst (writeConfiguration data w) = 1 \<longrightarrow> n = 27)
     \<and> (fst (writeConfiguration data w) = 0 \<or> fst (writeConfiguration data w) = 1)"
    by (rule exI [of _ n], rule exI [of _ "map ?F (take n ([4..<21] @ [22..<32]))"])
       (insert n, blast)
  from c1 c2 show ?thesis by blast
qed

text \<open>
  C5, counterexample to the claim as stated: the device wakes up but the bus refuses the
  first write command. The operation returns 0 after that one frame (word 4, offset 16):
  the other words are not written.
\<close>

theorem writeConfiguration_stops_at_failure:
  "writeConfiguration (replicate 128 0xFF)
       \<lparr>device_address = 0x60, trace = [], acks = [0, 2],
          reads = [[0x04, 0x11, 0x33, 0x43]], junk = []\<rparr>
     = (0, \<lparr>device_address = 0x60,
            trace = [BeginTransmission 0x00, EndTransmission, DelayMicroseconds 800,
                     RequestFrom 0x60 4,
                     SendTo 0x60 [0x03, 0x0B, 0x12, 0x00, 0x04, 0x00, 0xFF, 0xFF, 0xFF, 0xFF,
                                  0xAF, 0xCF]],
            acks = [], reads = [], junk = []\<rparr>)"
proof -
  have t: "replicate 4 (0xFF::byte) = [0xFF, 0xFF, 0xFF, 0xFF]"
    by (simp add: eval_nat_numeral)
  show ?thesis
    unfolding writeConfiguration_def
    by (subst writeConfiguration_loop.simps)
       (simp add: write_zone_def stub_frames stub_run t write_frame_bytes)
qed

lemma write_zone4_ok:
  "write_zone zone address buffer 4
       \<lparr>device_address = d, trace = t, acks = 0 # 0 # 0 # ks,
          reads = response_frame [0x11] # response_frame [0x00] # rs, junk = j\<rparr>
     = (1, \<lparr>device_address = d,
            trace = t @ [BeginTransmission 0x00, EndTransmission, DelayMicroseconds 800,
                         RequestFrom d 4,
                         SendTo d (command_frame 0x12 (word_of_int zone) (word_of_int address)
                                     (take 4 buffer)),
                         Delay 26, RequestFrom d 4, Delay 1,
                         BeginTransmission d, WireWrite 0x02, EndTransmission],
            acks = ks, reads = rs, junk = tl (tl j)\<rparr>)"
  by (simp add: write_zone_def stub_run)

lemma writeConfiguration_loop_ok:
  "k \<le> 32 \<Longrightarrow>
   fst (writeConfiguration_loop data (4 * k)
         \<lparr>device_address = d, trace = t,
            acks = replicate (3 * length (filter (\<lambda>a. a \<noteq> 21) [k..<32])) 0 @ ks,
            reads = concat (replicate (length (filter (\<lambda>a. a \<noteq> 21) [k..<32]))
                             [response_frame [0x11], response_frame [0x00]]) @ rs,
            junk = j\<rparr>) = 1"
proof (induction "32 - k" arbitrary: k t j)
  case 0
  then have k: "k = 32" by simp
  show ?case unfolding k by (subst writeConfiguration_loop.simps) simp
next
  case (Suc m)
  then have lt: "k < 32" and m: "m = 32 - Suc k" and le: "Suc k \<le> 32" by simp_all
  have nxt: "4 * k + 4 = 4 + 4 * k" by simp
  have r3: "replicate (3 + n) (0::nat) = 0 # 0 # 0 # replicate n 0" for n
    by (simp add: eval_nat_numeral)
  show ?case
  proof (cases "k = 21")
    case True
    have ws: "filter (\<lambda>a. a \<noteq> 21) [k..<32] = filter (\<lambda>a. a \<noteq> 21) [Suc k..<32]"
      using lt True by (simp add: upt_conv_Cons)
    show ?thesis
      unfolding ws using Suc.hyps(1) [OF m le, of t j] True
      by (subst writeConfiguration_loop.simps) simp
  next
    case False
    have ws: "filter (\<lambda>a. a \<noteq> 21) [k..<32] = k # filter (\<lambda>a. a \<noteq> 21) [Suc k..<32]"
      using lt False by (simp add: upt_conv_Cons)
    show ?thesis
      unfolding ws using Suc.hyps(1) [OF m le] lt False
      by (subst writeConfiguration_loop.simps) (simp add: write_zone4_ok nxt r3)
  qed
qed

text \<open>
  C5, scenario: a 128-byte buffer of \<open>FF\<close> and a device that accepts every write; the
  27 frames sent are the writes of words 4 to 20 and 22 to 31.
\<close>

theorem writeConfiguration_words_witness:
  "length (replicate 128 (0xFF::byte)) = 128
   \<and> fst (writeConfiguration (replicate 128 0xFF)
            \<lparr>device_address = 0x60, trace = [], acks = replicate 81 0,
               reads = concat (replicate 27 [[0x04, 0x11, 0x33, 0x43], [0x04, 0x00, 0x03, 0x40]]),
               junk = []\<rparr>) = 1
   \<and> frames_sent (snd (writeConfiguration (replicate 128 0xFF)
            \<lparr>device_address = 0x60, trace = [], acks = replicate 81 0,
               reads = concat (replicate 27 [[0x04, 0x11, 0x33, 0x43], [0x04, 0x00, 0x03, 0x40]]),
               junk = []\<rparr>))
       = map (\<lambda>a. command_frame 0x12 0x00 (of_nat a) [0xFF, 0xFF, 0xFF, 0xFF])
           ([4..<21] @ [22..<32])"
proof -
  let ?w = "\<lparr>device_address = 0x60, trace = [], acks = replicate 81 0,
               reads = concat (replicate 27 [[0x04, 0x11, 0x33, 0x43], [0x04, 0x00, 0x03, 0x40]]),
               junk = []\<rparr>"
  have l: "length (filter (\<lambda>a. a \<noteq> 21) [4..<32]) = 27"
    by (simp add: config_words)
  have ok: "fst (writeConfiguration (replicate 128 0xFF) ?w) = 1"
    using writeConfiguration_loop_ok [of 4 "replicate 128 0xFF" "0x60" "[]" "[]" "[]" "[]"]
    unfolding l writeConfiguration_def wake_response_bytes ok_response_bytes by simp
  have d: "take 4 (drop (4 * a) (replicate 128 (0xFF::byte))) = [0xFF, 0xFF, 0xFF, 0xFF]"
    if "a \<in> set ([4..<21] @ [22..<32])" for a
  proof -
    from that have "4 \<le> 128 - 4 * a" by auto
    then have "take 4 (drop (4 * a) (replicate 128 (0xFF::byte))) = replicate 4 0xFF"
      by (simp add: min_def)
    also have "replicate 4 (0xFF::byte) = [0xFF, 0xFF, 0xFF, 0xFF]"
      by (simp add: eval_nat_numeral)
    finally show ?thesis .
  qed
  have f0: "frames_sent ?w = []" by (simp add: frames_sent_def)
  have len: "length (replicate 128 (0xFF::byte)) = 128" by simp
  define ws :: "nat list" where "ws = [4..<21] @ [22..<32]"
  have lw: "length ws = 27" by (simp add: ws_def)
  from writeConfiguration_words [OF len, of ?w, folded ws_def] obtain n where
    n: "frames_sent (snd (writeConfiguration (replicate 128 0xFF) ?w))
          = frames_sent ?w
              @ map (\<lambda>a. command_frame 0x12 0x00 (of_nat a)
                             (take 4 (drop (4 * a) (replicate 128 0xFF)))) (take n ws)"
      "fst (writeConfiguration (replicate 128 0xFF) ?w) = 1 \<longrightarrow> n = 27"
    by blast
  from n(2) ok have n27: "n = 27" by simp
  have m: "map (\<lambda>a. command_frame 0x12 0x00 (of_nat a)
                             (take 4 (drop (4 * a) (replicate 128 0xFF)))) ws
      = map (\<lambda>a. command_frame 0x12 0x00 (of_nat a) [0xFF, 0xFF, 0xFF, 0xFF]) ws"
    by (rule map_cong [OF refl]) (simp only: d [unfolded ws_def [symmetric]])
  have "frames_sent (snd (writeConfiguration (replicate 128 0xFF) ?w))
      = map (\<lambda>a. command_frame 0x12 0x00 (of_nat a) [0xFF, 0xFF, 0xFF, 0xFF]) ws"
    unfolding n(1) n27 f0 using lw m by simp
  with ok len show ?thesis unfolding ws_def by blast
qed

end
